theory Spec2Isabelle
  imports Complex_Main "HOL-Library.Word" "HOL-Library.Extended_Nat"
begin

unbundle bit_operations_syntax

section \<open>The stddev aggregator (functions/stddev.go)\<close>

text \<open>
  \<^verbatim>\<open>float64\<close>, the binary64 format of IEEE 754: the finite values as the reals they denote,
  the two infinities and NaN. The two zeros are one value here: \<open>n\<close>, \<open>mean\<close> and \<open>m2\<close> start
  at \<open>+0\<close>, a sum with \<open>+0\<close> is never \<open>-0\<close>, and no operation of the aggregator divides by
  a zero, so the sign of a zero never reaches \<open>n\<close>, \<open>mean\<close>, \<open>m2\<close> or \<open>Value\<close>.
\<close>

datatype f64 = Fin real | PInf | NInf | NaN

text \<open>\<open>2\<^sup>e\<close> for an integer \<open>e\<close>.\<close>

definition pow2 :: "int \<Rightarrow> real" where
  "pow2 e = (if 0 \<le> e then 2 ^ nat e else 1 / 2 ^ nat (- e))"

text \<open>
  The exponent of the binade of \<open>x \<noteq> 0\<close>: \<open>2\<^sup>e \<le> \<bar>x\<bar> < 2\<^sup>e\<^sup>+\<^sup>1\<close>, and -1022 for the subnormal
  numbers.
\<close>

definition expo :: "real \<Rightarrow> int" where
  "expo x = max \<lfloor>log 2 \<bar>x\<bar>\<rfloor> (- 1022)"

text \<open>The nearest integer, the even one of two that are equally near.\<close>

definition round_even :: "real \<Rightarrow> int" where
  "round_even x =
     (let f = \<lfloor>x\<rfloor>; r = x - of_int f
      in if r < 1 / 2 then f else if 1 / 2 < r then f + 1 else if even f then f else f + 1)"

text \<open>
  Rounding to nearest, ties to even, the rounding of every Go float64 operation: the
  nearest multiple of \<open>2\<^sup>e\<^sup>-\<^sup>5\<^sup>2\<close> (53 bits of precision), and an infinity when that is
  \<open>2\<^sup>1\<^sup>0\<^sup>2\<^sup>4\<close> or more in magnitude.
\<close>

definition round64 :: "real \<Rightarrow> f64" where
  "round64 x =
     (if x = 0 then Fin 0
      else
        (let q = pow2 (expo x - 52);
             y = of_int (round_even (x / q)) * q
         in if 2 ^ 1024 \<le> \<bar>y\<bar> then (if 0 < x then PInf else NInf) else Fin y))"

text \<open>The operations \<open>-x\<close>, \<open>x + y\<close>, \<open>x - y\<close>, \<open>x * y\<close>, \<open>x / y\<close>, \<^verbatim>\<open>math.Sqrt\<close> and \<open>x < y\<close> of float64.\<close>

fun fneg :: "f64 \<Rightarrow> f64" where
  "fneg (Fin x) = Fin (- x)"
| "fneg PInf = NInf"
| "fneg NInf = PInf"
| "fneg NaN = NaN"

fun fadd :: "f64 \<Rightarrow> f64 \<Rightarrow> f64" where
  "fadd (Fin x) (Fin y) = round64 (x + y)"
| "fadd NaN b = NaN"
| "fadd a NaN = NaN"
| "fadd PInf NInf = NaN"
| "fadd NInf PInf = NaN"
| "fadd PInf b = PInf"
| "fadd a PInf = PInf"
| "fadd NInf b = NInf"
| "fadd a NInf = NInf"

definition fsub :: "f64 \<Rightarrow> f64 \<Rightarrow> f64" where
  "fsub a b = fadd a (fneg b)"

definition inf_of :: "bool \<Rightarrow> f64" where
  "inf_of positive = (if positive then PInf else NInf)"

fun fmul :: "f64 \<Rightarrow> f64 \<Rightarrow> f64" where
  "fmul (Fin x) (Fin y) = round64 (x * y)"
| "fmul NaN b = NaN"
| "fmul a NaN = NaN"
| "fmul (Fin x) PInf = (if x = 0 then NaN else inf_of (0 < x))"
| "fmul (Fin x) NInf = (if x = 0 then NaN else inf_of (x < 0))"
| "fmul PInf (Fin y) = (if y = 0 then NaN else inf_of (0 < y))"
| "fmul NInf (Fin y) = (if y = 0 then NaN else inf_of (y < 0))"
| "fmul PInf PInf = PInf"
| "fmul NInf NInf = PInf"
| "fmul PInf NInf = NInf"
| "fmul NInf PInf = NInf"

fun fdiv :: "f64 \<Rightarrow> f64 \<Rightarrow> f64" where
  "fdiv (Fin x) (Fin y) =
     (if y = 0 then (if x = 0 then NaN else inf_of (0 < x)) else round64 (x / y))"
| "fdiv NaN b = NaN"
| "fdiv a NaN = NaN"
| "fdiv (Fin x) PInf = Fin 0"
| "fdiv (Fin x) NInf = Fin 0"
| "fdiv PInf (Fin y) = inf_of (0 \<le> y)"
| "fdiv NInf (Fin y) = inf_of (y < 0)"
| "fdiv PInf b = NaN"
| "fdiv NInf b = NaN"

fun fsqrt :: "f64 \<Rightarrow> f64" where
  "fsqrt (Fin x) = (if x < 0 then NaN else round64 (sqrt x))"
| "fsqrt PInf = PInf"
| "fsqrt NInf = NaN"
| "fsqrt NaN = NaN"

fun flt :: "f64 \<Rightarrow> f64 \<Rightarrow> bool" where
  "flt (Fin x) (Fin y) = (x < y)"
| "flt NaN b = False"
| "flt a NaN = False"
| "flt NInf NInf = False"
| "flt NInf b = True"
| "flt a PInf = (a \<noteq> PInf)"
| "flt a b = False"

text \<open>\<^verbatim>\<open>type StddevAgg struct { n, m2, mean float64 }\<close>.\<close>

record StddevAgg =
  n :: f64
  m2 :: f64
  mean :: f64

text \<open>\<^verbatim>\<open>new(StddevAgg)\<close>: Go zero-initialises every field.\<close>

definition new_StddevAgg :: StddevAgg where
  "new_StddevAgg = \<lparr>n = Fin 0, m2 = Fin 0, mean = Fin 0\<rparr>"

text \<open>One iteration of the loop body of \<open>Do\<close>, for the value \<open>v\<close>.\<close>

definition Do_body :: "StddevAgg \<Rightarrow> f64 \<Rightarrow> StddevAgg" where
  "Do_body a v =
     (let a1 = a\<lparr>n := fadd (n a) (Fin 1)\<rparr>;
          delta = fsub v (mean a1);
          a2 = a1\<lparr>mean := fadd (mean a1) (fdiv delta (n a1))\<rparr>;
          delta2 = fsub v (mean a2)
      in a2\<lparr>m2 := fadd (m2 a2) (fmul delta delta2)\<rparr>)"

text \<open>\<^verbatim>\<open>func (a *StddevAgg) Do(vs []float64)\<close>: the loop over \<open>vs\<close>.\<close>

fun Do :: "StddevAgg \<Rightarrow> f64 list \<Rightarrow> StddevAgg" where
  "Do a [] = a"
| "Do a (v # vs) = Do (Do_body a v) vs"

text \<open>\<^verbatim>\<open>func (a *StddevAgg) Value() float64\<close>.\<close>

definition Value :: "StddevAgg \<Rightarrow> f64" where
  "Value a = (if flt (n a) (Fin 2) then NaN else fsqrt (fdiv (m2 a) (fsub (n a) (Fin 1))))"

text \<open>\<^verbatim>\<open>func (a *StddevAgg) Reset()\<close>.\<close>

definition Reset :: "StddevAgg \<Rightarrow> StddevAgg" where
  "Reset a = a\<lparr>n := Fin 0, mean := Fin 0, m2 := Fin 0\<rparr>"

text \<open>
  The aggregate transformation feeds an aggregator one value vector per block:
  \<open>Do\<close> called once for each vector, in order.
\<close>

fun Do_all :: "StddevAgg \<Rightarrow> f64 list list \<Rightarrow> StddevAgg" where
  "Do_all a [] = a"
| "Do_all a (vs # vss) = Do_all (Do a vs) vss"

text \<open>
  Welford's online algorithm as the specification names it, in float64: the count, the
  running mean and the running sum of squared deviations after one more value \<open>x\<close>.
\<close>

definition welford_step :: "f64 \<times> f64 \<times> f64 \<Rightarrow> f64 \<Rightarrow> f64 \<times> f64 \<times> f64" where
  "welford_step s x =
     (case s of (k, mu, q) \<Rightarrow>
        (let k' = fadd k (Fin 1);
             mu' = fadd mu (fdiv (fsub x mu) k')
         in (k', mu', fadd q (fmul (fsub x mu) (fsub x mu')))))"

definition welford :: "f64 list \<Rightarrow> f64 \<times> f64 \<times> f64" where
  "welford xs = foldl welford_step (Fin 0, Fin 0, Fin 0) xs"

text \<open>A real that float64 holds: rounding leaves it as it is.\<close>

definition exact :: "real \<Rightarrow> bool" where
  "exact x \<longleftrightarrow> round64 x = Fin x"

text \<open>Welford's recurrence on the reals, without rounding.\<close>

definition wstep :: "real \<times> real \<times> real \<Rightarrow> real \<Rightarrow> real \<times> real \<times> real" where
  "wstep s x =
     (case s of (k, mu, q) \<Rightarrow>
        (k + 1, mu + (x - mu) / (k + 1), q + (x - mu) * (x - (mu + (x - mu) / (k + 1)))))"

text \<open>No operation of \<open>Do\<close> on the values \<open>xs\<close> rounds or overflows, from the count, mean and sum \<open>s\<close>.\<close>

fun exact_run :: "real \<times> real \<times> real \<Rightarrow> real list \<Rightarrow> bool" where
  "exact_run s [] = True"
| "exact_run s (x # xs) =
     (case s of (k, mu, q) \<Rightarrow>
        (let d = x - mu; mu' = mu + d / (k + 1); d2 = x - mu'
         in exact (k + 1) \<and> exact d \<and> exact (d / (k + 1)) \<and> exact mu' \<and> exact d2 \<and>
            exact (d * d2) \<and> exact (q + d * d2) \<and> exact_run (wstep s x) xs))"

text \<open>The mean and the sum of the squared deviations of a list of reals.\<close>

definition sample_mean :: "real list \<Rightarrow> real" where
  "sample_mean xs = sum_list xs / real (length xs)"

definition sum_sq_dev :: "real list \<Rightarrow> real" where
  "sum_sq_dev xs = (\<Sum>x\<leftarrow>xs. (x - sample_mean xs)\<^sup>2)"

text \<open>The aggregator that holds the count \<open>k\<close>, the mean \<open>mu\<close> and the sum \<open>q\<close>.\<close>

definition agg :: "real \<times> real \<times> real \<Rightarrow> StddevAgg" where
  "agg s = (case s of (k, mu, q) \<Rightarrow> \<lparr>n = Fin k, m2 = Fin q, mean = Fin mu\<rparr>)"

text \<open>The invariant of Welford's recurrence on the reals after the values \<open>xs\<close>.\<close>

definition winv :: "real \<times> real \<times> real \<Rightarrow> real list \<Rightarrow> bool" where
  "winv s xs =
     (case s of (k, mu, q) \<Rightarrow>
        k = real (length xs) \<and>
        (if xs = [] then q = 0
         else mu * real (length xs) = sum_list xs \<and>
              q = (\<Sum>x\<leftarrow>xs. x\<^sup>2) - real (length xs) * mu\<^sup>2))"


section \<open>The storage source (query/execute, source.go)\<close>

text \<open>
  \<open>Time\<close> and \<open>Duration\<close> are declared outside the files at hand; both are 64-bit
  integers (\<open>Time(s.window.Period)\<close> converts one into the other), so \<open>+\<close> and \<open>-\<close>
  wrap modulo \<open>2 ^ 64\<close>, and the comparison of \<open>Next\<close> is the signed one.
\<close>

type_synonym Time = "64 word"
type_synonym Duration = "64 word"
type_synonym DatasetID = nat

record Window =
  Every :: Duration
  Period :: Duration

record Bounds =
  Start :: Time
  Stop :: Time

text \<open>
  The calls a source makes on a downstream transformation \<open>'t\<close>. The wall-clock
  argument of \<open>UpdateProcessingTime\<close> (\<open>Now()\<close>) is not recorded.
\<close>

datatype ('blk, 't) event =
    Process 't DatasetID 'blk
  | UpdateProcessingTime 't DatasetID
  | UpdateWatermark 't DatasetID Time
  | Finish 't DatasetID

text \<open>
  \<^verbatim>\<open>type storageSource struct\<close>. The \<open>StorageReader\<close> is its \<open>Read\<close> method, a function
  of the read spec and the window that returns an error or a block iterator; the
  iterator is the list of blocks its \<open>Do\<close> visits.
\<close>

record ('rs, 'blk, 'e, 't) storageSource =
  id' :: DatasetID
  reader :: "'rs \<Rightarrow> Time \<Rightarrow> Time \<Rightarrow> 'e + 'blk list"
  readSpec :: 'rs
  window :: Window
  bounds :: Bounds
  ts :: "'t list"
  currentTime :: Time

text \<open>What a run leaves outside the source: the calls made downstream, the process log.\<close>

record ('blk, 'e, 't) world =
  events :: "('blk, 't) event list"
  logged :: "'e list"

text \<open>
  \<^verbatim>\<open>func (s *storageSource) Next() (BlockIterator, Time, bool)\<close>: the result triple
  (\<open>None\<close> is the nil iterator), the source with \<open>currentTime\<close> advanced, and the log.
\<close>

definition Next ::
  "('rs, 'blk, 'e, 't) storageSource \<Rightarrow> 'e list \<Rightarrow>
   ('blk list option \<times> Time \<times> bool) \<times> ('rs, 'blk, 'e, 't) storageSource \<times> 'e list" where
  "Next s lg =
     (let start = currentTime s - Period (window s);
          stop = currentTime s;
          s' = s\<lparr>currentTime := currentTime s + Every (window s)\<rparr>
      in if Stop (bounds s) <s stop then ((None, 0, False), s', lg)
         else (case reader s (readSpec s) start stop of
                 Inl err \<Rightarrow> ((None, 0, False), s', lg @ [err])
               | Inr bi \<Rightarrow> ((Some bi, stop, True), s', lg)))"

text \<open>The body of the loop of \<open>Run\<close> for one window: every block to every transformation, then the watermark.\<close>

definition drain :: "'t list \<Rightarrow> DatasetID \<Rightarrow> 'blk list \<Rightarrow> Time \<Rightarrow> ('blk, 't) event list" where
  "drain tfs i bi mark =
     concat (map (\<lambda>b. concat (map (\<lambda>t. [Process t i b, UpdateProcessingTime t i]) tfs)) bi)
     @ map (\<lambda>t. UpdateWatermark t i mark) tfs"

datatype run_status = Running | Returned

text \<open>
  \<^verbatim>\<open>func (s *storageSource) Run()\<close>. The loop ends only when \<open>Next\<close> reports
  \<open>false\<close>, so it is run on fuel: \<open>Running\<close> is the state after that many windows, and
  \<open>Returned\<close> the state once \<open>Run\<close> has called \<open>Finish\<close> and returned.
\<close>

fun Run ::
  "nat \<Rightarrow> ('rs, 'blk, 'e, 't) storageSource \<Rightarrow> ('blk, 'e, 't) world \<Rightarrow>
   run_status \<times> ('rs, 'blk, 'e, 't) storageSource \<times> ('blk, 'e, 't) world" where
  "Run 0 s w = (Running, s, w)"
| "Run (Suc fuel) s w =
     (case Next s (logged w) of
        ((blocks, mark, ok), s', lg) \<Rightarrow>
          if ok then
            Run fuel s' (w\<lparr>events := events w @ drain (ts s') (id' s') (case blocks of None \<Rightarrow> [] | Some bi \<Rightarrow> bi) mark,
                            logged := lg\<rparr>)
          else
            (Returned, s', w\<lparr>events := events w @ map (\<lambda>t. Finish t (id' s')) (ts s'), logged := lg\<rparr>))"

text \<open>The watermarks a transformation has been sent, in order.\<close>

fun watermarks :: "'t \<Rightarrow> ('blk, 't) event list \<Rightarrow> Time list" where
  "watermarks t [] = []"
| "watermarks t (UpdateWatermark t' i m # es) = (if t' = t then m # watermarks t es else watermarks t es)"
| "watermarks t (e # es) = watermarks t es"


section \<open>The planner (query/plan, physical.go) and the push-down rules (functions)\<close>

type_synonym ProcedureID = string
type_synonym ProcedureKind = string

text \<open>The run-time panics of Go that the planner code can raise.\<close>

datatype panic = NilDereference | TypeAssertion

definition SelectKind :: ProcedureKind where "SelectKind = ''select''"
definition RangeKind :: ProcedureKind where "RangeKind = ''range''"
definition WhereKind :: ProcedureKind where "WhereKind = ''where''"
definition LimitKind :: ProcedureKind where "LimitKind = ''limit''"

text \<open>\<^verbatim>\<open>query.ExpressionSpec\<close>, of which the planner reads \<open>Predicate\<close> only; \<open>'x\<close> is the predicate AST.\<close>

record 'x ExpressionSpec =
  Predicate :: 'x

text \<open>
  The fields of \<^verbatim>\<open>SelectProcedureSpec\<close> that the push-down mutators write;
  \<open>'b\<close> is \<^verbatim>\<open>plan.BoundsSpec\<close>, which the planner only stores and passes on.
\<close>

record ('b, 'x) SelectProcedureSpec =
  BoundsSet :: bool
  Bounds :: 'b
  WhereSet :: bool
  Where :: 'x

text \<open>
  The procedure specs: \<^verbatim>\<open>*SelectProcedureSpec\<close>, \<^verbatim>\<open>*RangeProcedureSpec{Bounds}\<close>,
  \<^verbatim>\<open>*WhereProcedureSpec{Exp}\<close> (\<open>Exp\<close> is a pointer, \<open>None\<close> when nil), and
  \<open>OtherSpec k\<close> for a spec of kind \<open>k\<close> that implements no \<open>PushDown\<close>.
\<close>

datatype ('b, 'x) ProcedureSpec =
    SelectSpec "('b, 'x) SelectProcedureSpec"
  | RangeSpec 'b
  | WhereSpec "'x ExpressionSpec option"
  | OtherSpec ProcedureKind

fun Kind :: "('b, 'x) ProcedureSpec \<Rightarrow> ProcedureKind" where
  "Kind (SelectSpec _) = SelectKind"
| "Kind (RangeSpec _) = RangeKind"
| "Kind (WhereSpec _) = WhereKind"
| "Kind (OtherSpec k) = k"

record ('b, 'x) Procedure =
  ID :: ProcedureID
  Spec :: "('b, 'x) ProcedureSpec"
  Parents :: "ProcedureID list"
  Children :: "ProcedureID list"

record PushDownRule =
  Root :: ProcedureKind
  Through :: "ProcedureKind list"

text \<open>
  \<^verbatim>\<open>pr.Spec.(PushDownProcedureSpec)\<close> with \<open>PushDownRule()\<close>: \<open>None\<close> when the spec
  does not implement the interface.
\<close>

fun PushDownRule_of :: "('b, 'x) ProcedureSpec \<Rightarrow> PushDownRule option" where
  "PushDownRule_of (RangeSpec _) = Some \<lparr>Root = SelectKind, Through = [LimitKind, WhereKind]\<rparr>"
| "PushDownRule_of (WhereSpec _) = Some \<lparr>Root = SelectKind, Through = [LimitKind, RangeKind]\<rparr>"
| "PushDownRule_of _ = None"

text \<open>\<^verbatim>\<open>func (s *RangeProcedureSpec) PushDown(root *plan.Procedure)\<close>; the branch on \<open>BoundsSet\<close> has an empty body.\<close>

definition RangeProcedureSpec_PushDown ::
  "'b \<Rightarrow> ('b, 'x) Procedure \<Rightarrow> panic + ('b, 'x) Procedure" where
  "RangeProcedureSpec_PushDown b root_pr =
     (case Spec root_pr of
        SelectSpec selectSpec \<Rightarrow>
          (let selectSpec = (if BoundsSet selectSpec then selectSpec else selectSpec)
           in Inr (root_pr\<lparr>Spec := SelectSpec (selectSpec\<lparr>BoundsSet := True, Bounds := b\<rparr>)\<rparr>))
      | _ \<Rightarrow> Inl TypeAssertion)"

text \<open>\<^verbatim>\<open>func (s *WhereProcedureSpec) PushDown(root *plan.Procedure)\<close>; \<open>s.Exp.Predicate\<close> panics on a nil \<open>Exp\<close>.\<close>

definition WhereProcedureSpec_PushDown ::
  "'x ExpressionSpec option \<Rightarrow> ('b, 'x) Procedure \<Rightarrow> panic + ('b, 'x) Procedure" where
  "WhereProcedureSpec_PushDown ex root_pr =
     (case Spec root_pr of
        SelectSpec selectSpec \<Rightarrow>
          (let selectSpec = (if WhereSet selectSpec then selectSpec else selectSpec)
           in case ex of
                None \<Rightarrow> Inl NilDereference
              | Some e \<Rightarrow> Inr (root_pr\<lparr>Spec := SelectSpec (selectSpec\<lparr>WhereSet := True, Where := Predicate e\<rparr>)\<rparr>))
      | _ \<Rightarrow> Inl TypeAssertion)"

text \<open>The method value \<open>pd.PushDown\<close> of a spec that implements the interface.\<close>

fun PushDown :: "('b, 'x) ProcedureSpec \<Rightarrow> ('b, 'x) Procedure \<Rightarrow> panic + ('b, 'x) Procedure" where
  "PushDown (RangeSpec b) root_pr = RangeProcedureSpec_PushDown b root_pr"
| "PushDown (WhereSpec e) root_pr = WhereProcedureSpec_PushDown e root_pr"
| "PushDown _ root_pr = Inr root_pr"

text \<open>
  Modelled from the spec: \<^verbatim>\<open>LogicalPlanSpec\<close> is declared outside the files at hand.
  It holds one procedure per operation, each stored under its own ID, and an \<open>Order\<close>
  of IDs; its \<open>Do\<close> visits \<open>Procedures[id]\<close> for each \<open>id\<close> of \<open>Order\<close>, as \<open>PlanSpec.Do\<close> does.
\<close>

record ('b, 'x) LogicalPlanSpec =
  lProcedures :: "ProcedureID \<rightharpoonup> ('b, 'x) Procedure"
  lOrder :: "ProcedureID list"

text \<open>
  \<^verbatim>\<open>type PlanSpec struct\<close> while the planner works on it. The map \<open>Procedures\<close> holds
  pointers to the procedures of the logical plan, which are mutated in place:
  \<open>store\<close> holds these objects under their IDs, and \<open>Procedures\<close> is the set of keys of
  the map. \<open>Bounds'\<close> is the field \<open>Bounds\<close>; the field \<open>Now\<close> is only written.
\<close>

record ('b, 'x) PlanSpec =
  store :: "ProcedureID \<rightharpoonup> ('b, 'x) Procedure"
  Bounds' :: 'b
  Procedures :: "ProcedureID set"
  Order :: "ProcedureID list"
  Results :: "ProcedureID list"

text \<open>\<^verbatim>\<open>p.plan.Procedures[id]\<close>, \<open>None\<close> for the nil pointer of a missing key.\<close>

definition lookup :: "('b, 'x) PlanSpec \<Rightarrow> ProcedureID \<Rightarrow> ('b, 'x) Procedure option" where
  "lookup p i = (if i \<in> Procedures p then store p i else None)"

fun hasKind :: "ProcedureKind \<Rightarrow> ProcedureKind list \<Rightarrow> bool" where
  "hasKind kind [] = False"
| "hasKind kind (k # kinds) = (if k = kind then True else hasKind kind kinds)"

text \<open>
  \<^verbatim>\<open>func removeID(ids []ProcedureID, remove ProcedureID) []ProcedureID\<close>. The loop
  has visited \<open>pre\<close> (\<open>ids[0:i]\<close>); at the first match it returns \<open>ids[0:i]\<close> followed by
  \<open>ids[i+1:]\<close>, and with no match \<open>filtered\<close> is still the empty \<open>ids[0:0]\<close>.
\<close>

fun removeID_loop :: "ProcedureID list \<Rightarrow> ProcedureID list \<Rightarrow> ProcedureID \<Rightarrow> ProcedureID list" where
  "removeID_loop pre [] remove = []"
| "removeID_loop pre (i # rest) remove =
     (if i = remove then pre @ rest else removeID_loop (pre @ [i]) rest remove)"

definition removeID :: "ProcedureID list \<Rightarrow> ProcedureID \<Rightarrow> ProcedureID list" where
  "removeID ids remove = removeID_loop [] ids remove"

text \<open>
  \<^verbatim>\<open>func (p *planner) pushDownAndSearch(pr, rule, do)\<close>, for the parents of \<open>pr\<close> still
  to visit. The recursion follows the parent edges and does not end on a cycle of
  \<open>Through\<close> kinds, so it runs on fuel: \<open>None\<close> is fuel exhausted.
\<close>

fun pushDownAndSearch ::
  "nat \<Rightarrow> ('b, 'x) PlanSpec \<Rightarrow> ProcedureID list \<Rightarrow> PushDownRule \<Rightarrow>
   (('b, 'x) Procedure \<Rightarrow> panic + ('b, 'x) Procedure) \<Rightarrow> (panic + ('b, 'x) PlanSpec) option" where
  "pushDownAndSearch 0 p parents rule do = None"
| "pushDownAndSearch (Suc fuel) p [] rule do = Some (Inr p)"
| "pushDownAndSearch (Suc fuel) p (parent # parents) rule do =
     (case lookup p parent of
        None \<Rightarrow> Some (Inl NilDereference)
      | Some pp \<Rightarrow>
          (let pk = Kind (Spec pp) in
           if pk = Root rule then
             (case do pp of
                Inl e \<Rightarrow> Some (Inl e)
              | Inr pp' \<Rightarrow> pushDownAndSearch fuel (p\<lparr>store := (store p)(parent \<mapsto> pp')\<rparr>) parents rule do)
           else if hasKind pk (Through rule) then
             (case pushDownAndSearch fuel p (Parents pp) rule do of
                None \<Rightarrow> None
              | Some (Inl e) \<Rightarrow> Some (Inl e)
              | Some (Inr p') \<Rightarrow> pushDownAndSearch fuel p' parents rule do)
           else pushDownAndSearch fuel p parents rule do))"

text \<open>The two loops of \<open>removeProcedure\<close>, over \<open>pr.Parents\<close> and over \<open>pr.Children\<close>.\<close>

fun splice_parents ::
  "('b, 'x) PlanSpec \<Rightarrow> ('b, 'x) Procedure \<Rightarrow> ProcedureID list \<Rightarrow> panic + ('b, 'x) PlanSpec" where
  "splice_parents p pr [] = Inr p"
| "splice_parents p pr (i # ids) =
     (case lookup p i of
        None \<Rightarrow> Inl NilDereference
      | Some parent \<Rightarrow>
          splice_parents
            (p\<lparr>store := (store p)(i \<mapsto> parent\<lparr>Children := removeID (Children parent) (ID pr) @ Children pr\<rparr>)\<rparr>)
            pr ids)"

fun splice_children ::
  "('b, 'x) PlanSpec \<Rightarrow> ('b, 'x) Procedure \<Rightarrow> ProcedureID list \<Rightarrow> panic + ('b, 'x) PlanSpec" where
  "splice_children p pr [] = Inr p"
| "splice_children p pr (i # ids) =
     (case lookup p i of
        None \<Rightarrow> Inl NilDereference
      | Some child \<Rightarrow>
          splice_children
            (p\<lparr>store := (store p)(i \<mapsto> child\<lparr>Parents := removeID (Parents child) (ID pr) @ Parents pr\<rparr>)\<rparr>)
            pr ids)"

text \<open>\<^verbatim>\<open>func (p *planner) removeProcedure(pr *Procedure)\<close>.\<close>

definition removeProcedure ::
  "('b, 'x) PlanSpec \<Rightarrow> ('b, 'x) Procedure \<Rightarrow> panic + ('b, 'x) PlanSpec" where
  "removeProcedure p pr =
     (let p1 = p\<lparr>Procedures := Procedures p - {ID pr}, Order := removeID (Order p) (ID pr)\<rparr>
      in case splice_parents p1 pr (Parents pr) of
           Inl e \<Rightarrow> Inl e
         | Inr p2 \<Rightarrow> splice_children p2 pr (Children pr))"

text \<open>The first pass of \<open>Plan\<close>: populate \<open>Procedures\<close> and \<open>Order\<close>.\<close>

fun populate ::
  "('b, 'x) PlanSpec \<Rightarrow> ProcedureID list \<Rightarrow> panic + ('b, 'x) PlanSpec" where
  "populate p [] = Inr p"
| "populate p (i # ids) =
     (case store p i of
        None \<Rightarrow> Inl NilDereference
      | Some pr \<Rightarrow> populate (p\<lparr>Procedures := insert (ID pr) (Procedures p), Order := Order p @ [ID pr]\<rparr>) ids)"

text \<open>
  The push-down branch of the second pass of \<open>Plan\<close> for the procedure \<open>pr\<close>, stored
  under \<open>i\<close>: \<open>pushDownAndSearch\<close>, then \<open>removeProcedure\<close> on the same object.
\<close>

definition push_down_and_remove ::
  "nat \<Rightarrow> ('b, 'x) PlanSpec \<Rightarrow> ProcedureID \<Rightarrow> ('b, 'x) Procedure \<Rightarrow> (panic + ('b, 'x) PlanSpec) option" where
  "push_down_and_remove fuel p i pr =
     (case PushDownRule_of (Spec pr) of
        None \<Rightarrow> Some (Inr p)
      | Some rule \<Rightarrow>
          (case pushDownAndSearch fuel p (Parents pr) rule (PushDown (Spec pr)) of
             None \<Rightarrow> None
           | Some (Inl e) \<Rightarrow> Some (Inl e)
           | Some (Inr p') \<Rightarrow>
               (case store p' i of
                  None \<Rightarrow> Some (Inl NilDereference)
                | Some pr' \<Rightarrow> Some (removeProcedure p' pr'))))"

text \<open>
  The bounds branch of the second pass. \<open>TimeBounds\<close> is
  \<^verbatim>\<open>pr.Spec.(BoundedProcedureSpec)\<close> with \<open>TimeBounds()\<close> (\<open>None\<close> when not implemented)
  and \<open>Union\<close> is \<^verbatim>\<open>BoundsSpec.Union\<close> at the planner's \<open>now\<close>; neither is in the files at hand.
\<close>

definition union_bounds ::
  "(('b, 'x) ProcedureSpec \<Rightarrow> 'b option) \<Rightarrow> ('b \<Rightarrow> 'b \<Rightarrow> 'b) \<Rightarrow>
   ('b, 'x) PlanSpec \<Rightarrow> ('b, 'x) Procedure \<Rightarrow> ('b, 'x) PlanSpec" where
  "union_bounds TimeBounds Union' p pr =
     (case TimeBounds (Spec pr) of
        None \<Rightarrow> p
      | Some b \<Rightarrow> p\<lparr>Bounds' := Union' (Bounds' p) b\<rparr>)"

text \<open>The second pass of \<open>Plan\<close>, for the procedures still to visit.\<close>

fun push_down_pass ::
  "nat \<Rightarrow> (('b, 'x) ProcedureSpec \<Rightarrow> 'b option) \<Rightarrow> ('b \<Rightarrow> 'b \<Rightarrow> 'b) \<Rightarrow>
   ('b, 'x) PlanSpec \<Rightarrow> ProcedureID list \<Rightarrow> (panic + ('b, 'x) PlanSpec) option" where
  "push_down_pass fuel TimeBounds Union' p [] = Some (Inr p)"
| "push_down_pass fuel TimeBounds Union' p (i # ids) =
     (case store p i of
        None \<Rightarrow> Some (Inl NilDereference)
      | Some pr \<Rightarrow>
          (case push_down_and_remove fuel p i pr of
             None \<Rightarrow> None
           | Some (Inl e) \<Rightarrow> Some (Inl e)
           | Some (Inr p2) \<Rightarrow>
               (case store p2 i of
                  None \<Rightarrow> Some (Inl NilDereference)
                | Some pr2 \<Rightarrow>
                    push_down_pass fuel TimeBounds Union' (union_bounds TimeBounds Union' p2 pr2) ids)))"

text \<open>The third pass of \<open>Plan\<close>: the procedures without children are the results.\<close>

fun find_results ::
  "('b, 'x) PlanSpec \<Rightarrow> ProcedureID list \<Rightarrow> panic + ('b, 'x) PlanSpec" where
  "find_results p [] = Inr p"
| "find_results p (i # ids) =
     (case lookup p i of
        None \<Rightarrow> Inl NilDereference
      | Some pr \<Rightarrow>
          find_results (if Children pr = [] then p\<lparr>Results := Results p @ [ID pr]\<rparr> else p) ids)"

text \<open>
  \<^verbatim>\<open>func (p *planner) Plan(ap *LogicalPlanSpec, s Storage, now time.Time)\<close>;
  \<open>b0\<close> is the zero \<open>BoundsSpec\<close>. The storage \<open>s\<close> is not used by the code.
\<close>

definition Plan ::
  "nat \<Rightarrow> (('b, 'x) ProcedureSpec \<Rightarrow> 'b option) \<Rightarrow> ('b \<Rightarrow> 'b \<Rightarrow> 'b) \<Rightarrow> 'b \<Rightarrow>
   ('b, 'x) LogicalPlanSpec \<Rightarrow> (panic + ('b, 'x) PlanSpec) option" where
  "Plan fuel TimeBounds Union' b0 ap =
     (case populate \<lparr>store = lProcedures ap, Bounds' = b0, Procedures = {}, Order = [], Results = []\<rparr> (lOrder ap) of
        Inl e \<Rightarrow> Some (Inl e)
      | Inr p1 \<Rightarrow>
          (case push_down_pass fuel TimeBounds Union' p1 (lOrder ap) of
             None \<Rightarrow> None
           | Some (Inl e) \<Rightarrow> Some (Inl e)
           | Some (Inr p2) \<Rightarrow> Some (find_results p2 (Order p2))))"

section \<open>Auxiliary notions for the planner proofs\<close>

text \<open>Two states of one procedure object: the same ID, and the same answer to "implements PushDown".\<close>

definition same_kind :: "('b, 'x) Procedure \<Rightarrow> ('b, 'x) Procedure \<Rightarrow> bool" where
  "same_kind q q' \<longleftrightarrow> ID q' = ID q \<and> (PushDownRule_of (Spec q') = None \<longleftrightarrow> PushDownRule_of (Spec q) = None)"

text \<open>Every stored object is unchanged up to \<open>same_kind\<close>.\<close>

definition same_shape :: "('b, 'x) PlanSpec \<Rightarrow> ('b, 'x) PlanSpec \<Rightarrow> bool" where
  "same_shape p p' \<longleftrightarrow> (\<forall>i. rel_option same_kind (store p i) (store p' i))"

text \<open>Every object is stored under its own ID.\<close>

definition keyed :: "('b, 'x) PlanSpec \<Rightarrow> bool" where
  "keyed p \<longleftrightarrow> (\<forall>i q. store p i = Some q \<longrightarrow> ID q = i)"

text \<open>The object stored under \<open>i\<close> has a spec that implements PushDown.\<close>

definition is_push_down :: "('b, 'x) PlanSpec \<Rightarrow> ProcedureID \<Rightarrow> bool" where
  "is_push_down p i \<longleftrightarrow> (\<exists>q. store p i = Some q \<and> PushDownRule_of (Spec q) \<noteq> None)"


section \<open>Concrete inputs\<close>

text \<open>
  A storage source over windows of 10 ticks up to tick 100, with two transformations;
  its reader fails on the window that stops at 30 and otherwise returns one block,
  the window itself.
\<close>

fun reader30 :: "unit \<Rightarrow> Time \<Rightarrow> Time \<Rightarrow> string + (Time \<times> Time) list" where
  "reader30 rs a b = (if b = 30 then Inl ''read failed'' else Inr [(a, b)])"

definition src0 :: "(unit, Time \<times> Time, string, nat) storageSource" where
  "src0 = \<lparr>id' = 7, reader = reader30, readSpec = (),
     window = \<lparr>Every = 10, Period = 10\<rparr>, bounds = \<lparr>Start = 0, Stop = 100\<rparr>, ts = [0, 1], currentTime = 10\<rparr>"

definition world0 :: "(Time \<times> Time, string, nat) world" where
  "world0 = \<lparr>events = [], logged = []\<rparr>"

text \<open>The same source at the failing window, and a source past its bounds.\<close>

definition src_failing :: "(unit, Time \<times> Time, string, nat) storageSource" where
  "src_failing = src0\<lparr>currentTime := 30\<rparr>"

definition src_exhausted :: "(unit, Time \<times> Time, string, nat) storageSource" where
  "src_exhausted = src0\<lparr>currentTime := 110\<rparr>"

text \<open>A source two ticks below the largest \<open>Time\<close>, with bounds up to the largest \<open>Time\<close>.\<close>

fun reader_empty :: "unit \<Rightarrow> Time \<Rightarrow> Time \<Rightarrow> string + unit list" where
  "reader_empty rs a b = Inr []"

definition src_ovf :: "(unit, unit, string, nat) storageSource" where
  "src_ovf = \<lparr>id' = 7, reader = reader_empty, readSpec = (),
     window = \<lparr>Every = 4, Period = 0\<rparr>, bounds = \<lparr>Start = 0, Stop = 0x7FFFFFFFFFFFFFFF\<rparr>,
     ts = [0], currentTime = 0x7FFFFFFFFFFFFFFE\<rparr>"

text \<open>Planner inputs: no spec declares time bounds, and \<open>Union\<close> keeps its argument.\<close>

definition no_bounds :: "(nat, nat) ProcedureSpec \<Rightarrow> nat option" where
  "no_bounds sp = None"

definition take_new :: "nat \<Rightarrow> nat \<Rightarrow> nat" where
  "take_new a b = b"

definition sel0 :: "(nat, nat) SelectProcedureSpec" where
  "sel0 = \<lparr>BoundsSet = False, Bounds = 0, WhereSet = False, Where = 0\<rparr>"

text \<open>\<open>select0 \<rightarrow> count1 \<rightarrow> range2\<close>: the parent of the range is neither a select nor a limit or where.\<close>

definition blocked_plan :: "(nat, nat) LogicalPlanSpec" where
  "blocked_plan = \<lparr>lProcedures =
       [''select0'' \<mapsto> \<lparr>ID = ''select0'', Spec = SelectSpec sel0, Parents = [], Children = [''count1'']\<rparr>,
        ''count1'' \<mapsto> \<lparr>ID = ''count1'', Spec = OtherSpec ''count'', Parents = [''select0''], Children = [''range2'']\<rparr>,
        ''range2'' \<mapsto> \<lparr>ID = ''range2'', Spec = RangeSpec 5, Parents = [''count1''], Children = []\<rparr>],
     lOrder = [''select0'', ''count1'', ''range2'']\<rparr>"

definition blocked_planned :: "(nat, nat) PlanSpec" where
  "blocked_planned =
     \<lparr>store = [''select0'' \<mapsto> \<lparr>ID = ''select0'', Spec = SelectSpec sel0, Parents = [], Children = [''count1'']\<rparr>,
        ''count1'' \<mapsto> \<lparr>ID = ''count1'', Spec = OtherSpec ''count'', Parents = [''select0''], Children = []\<rparr>,
        ''range2'' \<mapsto> \<lparr>ID = ''range2'', Spec = RangeSpec 5, Parents = [''count1''], Children = []\<rparr>],
      Bounds' = 0, Procedures = {''select0'', ''count1''}, Order = [''select0'', ''count1''], Results = [''count1'']\<rparr>"

text \<open>\<open>select0\<close> with the children \<open>range1\<close> and \<open>join2\<close>, and \<open>range1 \<rightarrow> join2\<close>.\<close>

definition range1 :: "(nat, nat) Procedure" where
  "range1 = \<lparr>ID = ''range1'', Spec = RangeSpec 5, Parents = [''select0''], Children = [''join2'']\<rparr>"

definition diamond :: "(nat, nat) PlanSpec" where
  "diamond = \<lparr>store = [''select0'' \<mapsto> \<lparr>ID = ''select0'', Spec = SelectSpec sel0, Parents = [], Children = [''range1'', ''join2'']\<rparr>,
                       ''range1'' \<mapsto> range1,
                       ''join2'' \<mapsto> \<lparr>ID = ''join2'', Spec = OtherSpec ''join'', Parents = [''select0'', ''range1''], Children = []\<rparr>],
     Bounds' = 0, Procedures = {''select0'', ''range1'', ''join2''}, Order = [''select0'', ''range1'', ''join2''], Results = []\<rparr>"

definition diamond_removed :: "(nat, nat) PlanSpec" where
  "diamond_removed = \<lparr>store = [''select0'' \<mapsto> \<lparr>ID = ''select0'', Spec = SelectSpec sel0, Parents = [], Children = [''join2'', ''join2'']\<rparr>,
                       ''range1'' \<mapsto> range1,
                       ''join2'' \<mapsto> \<lparr>ID = ''join2'', Spec = OtherSpec ''join'', Parents = [''select0'', ''select0''], Children = []\<rparr>],
     Bounds' = 0, Procedures = {''select0'', ''join2''}, Order = [''select0'', ''join2''], Results = []\<rparr>"

text \<open>A select procedure, fresh and after a range with bounds 5 was pushed into it.\<close>

definition select_fresh :: "(nat, nat) Procedure" where
  "select_fresh = \<lparr>ID = ''select0'', Spec = SelectSpec sel0, Parents = [], Children = [''range1'', ''range2'']\<rparr>"

definition select_bounded :: "(nat, nat) Procedure" where
  "select_bounded = \<lparr>ID = ''select0'', Spec = SelectSpec (sel0\<lparr>BoundsSet := True, Bounds := 5\<rparr>), Parents = [], Children = [''range1'', ''range2'']\<rparr>"

text \<open>Two ranges on one select, and the later range alone.\<close>

definition two_ranges :: "(nat, nat) LogicalPlanSpec" where
  "two_ranges = \<lparr>lProcedures =
       [''select0'' \<mapsto> select_fresh,
        ''range1'' \<mapsto> \<lparr>ID = ''range1'', Spec = RangeSpec 5, Parents = [''select0''], Children = []\<rparr>,
        ''range2'' \<mapsto> \<lparr>ID = ''range2'', Spec = RangeSpec 9, Parents = [''select0''], Children = []\<rparr>],
     lOrder = [''select0'', ''range1'', ''range2'']\<rparr>"

definition one_range :: "(nat, nat) LogicalPlanSpec" where
  "one_range = \<lparr>lProcedures =
       [''select0'' \<mapsto> select_fresh\<lparr>Children := [''range2'']\<rparr>,
        ''range2'' \<mapsto> \<lparr>ID = ''range2'', Spec = RangeSpec 9, Parents = [''select0''], Children = []\<rparr>],
     lOrder = [''select0'', ''range2'']\<rparr>"

definition select_planned :: "(nat, nat) Procedure" where
  "select_planned = \<lparr>ID = ''select0'', Spec = SelectSpec (sel0\<lparr>BoundsSet := True, Bounds := 9\<rparr>), Parents = [], Children = []\<rparr>"

definition two_ranges_planned :: "(nat, nat) PlanSpec" where
  "two_ranges_planned =
     \<lparr>store = [''select0'' \<mapsto> select_planned,
        ''range1'' \<mapsto> \<lparr>ID = ''range1'', Spec = RangeSpec 5, Parents = [''select0''], Children = []\<rparr>,
        ''range2'' \<mapsto> \<lparr>ID = ''range2'', Spec = RangeSpec 9, Parents = [''select0''], Children = []\<rparr>],
      Bounds' = 0, Procedures = {''select0''}, Order = [''select0''], Results = [''select0'']\<rparr>"

definition one_range_planned :: "(nat, nat) PlanSpec" where
  "one_range_planned =
     \<lparr>store = [''select0'' \<mapsto> select_planned,
        ''range2'' \<mapsto> \<lparr>ID = ''range2'', Spec = RangeSpec 9, Parents = [''select0''], Children = []\<rparr>],
      Bounds' = 0, Procedures = {''select0''}, Order = [''select0''], Results = [''select0'']\<rparr>"


section \<open>The parser (ifql/ifql.go, generated by pigeon from ifql.peg)\<close>

subsection \<open>Runes and UTF-8\<close>

type_synonym rune = nat

text \<open>\<^verbatim>\<open>utf8.RuneError\<close>, U+FFFD.\<close>

definition RuneError :: rune where
  "RuneError = 0xFFFD"

definition cont_byte :: "nat \<Rightarrow> bool" where
  "cont_byte b \<longleftrightarrow> 0x80 \<le> b \<and> b \<le> 0xBF"

text \<open>
  \<^verbatim>\<open>utf8.DecodeRune\<close> of the Go standard library, on the bytes as numbers: the first
  rune and its width in bytes, \<open>(RuneError, 0)\<close> on the empty input and
  \<open>(RuneError, 1)\<close> on an encoding that is invalid, too short, overlong, a surrogate or
  above U+10FFFF.
\<close>

fun decode_bytes :: "nat list \<Rightarrow> rune \<times> nat" where
  "decode_bytes [] = (RuneError, 0)"
| "decode_bytes (b0 # bs) =
     (if b0 < 0x80 then (b0, 1)
      else if 0xC2 \<le> b0 \<and> b0 \<le> 0xDF then
        (case bs of
           b1 # _ \<Rightarrow> if cont_byte b1 then ((b0 mod 32) * 64 + b1 mod 64, 2) else (RuneError, 1)
         | _ \<Rightarrow> (RuneError, 1))
      else if 0xE0 \<le> b0 \<and> b0 \<le> 0xEF then
        (case bs of
           b1 # b2 # _ \<Rightarrow>
             if (if b0 = 0xE0 then 0xA0 else 0x80) \<le> b1 \<and> b1 \<le> (if b0 = 0xED then 0x9F else 0xBF) \<and> cont_byte b2
             then ((b0 mod 16) * 4096 + (b1 mod 64) * 64 + b2 mod 64, 3) else (RuneError, 1)
         | _ \<Rightarrow> (RuneError, 1))
      else if 0xF0 \<le> b0 \<and> b0 \<le> 0xF4 then
        (case bs of
           b1 # b2 # b3 # _ \<Rightarrow>
             if (if b0 = 0xF0 then 0x90 else 0x80) \<le> b1 \<and> b1 \<le> (if b0 = 0xF4 then 0x8F else 0xBF) \<and>
                cont_byte b2 \<and> cont_byte b3
             then ((b0 mod 8) * 262144 + (b1 mod 64) * 4096 + (b2 mod 64) * 64 + b3 mod 64, 4)
             else (RuneError, 1)
         | _ \<Rightarrow> (RuneError, 1))
      else (RuneError, 1))"

definition DecodeRune :: "string \<Rightarrow> rune \<times> nat" where
  "DecodeRune s = decode_bytes (map of_char s)"

text \<open>The runes of a Go string, as \<^verbatim>\<open>for _, want := range s\<close> visits them.\<close>

fun runes_fuel :: "nat \<Rightarrow> string \<Rightarrow> rune list" where
  "runes_fuel 0 s = []"
| "runes_fuel (Suc k) s =
     (if s = [] then [] else fst (DecodeRune s) # runes_fuel k (drop (snd (DecodeRune s)) s))"

definition runes :: "string \<Rightarrow> rune list" where
  "runes s = runes_fuel (length s) s"

subsection \<open>The grammar and the parser state\<close>

record position =
  line :: nat
  col :: nat
  offset :: nat

text \<open>\<^verbatim>\<open>type savepoint struct { position; rn rune; w int }\<close>.\<close>

record savepoint = position +
  rn :: rune
  w :: nat

text \<open>
  The expression nodes. The first argument of every constructor is the identity of
  the node (the memo table is keyed by the pointer to the node). A \<open>charClassMatcher\<close>
  carries \<open>val\<close>, \<open>chars\<close>, \<open>ranges\<close>, \<open>ignoreCase\<close> and \<open>inverted\<close>; no node of the grammar
  has \<open>classes\<close>, and the grammar has no \<open>andCodeExpr\<close> or \<open>notCodeExpr\<close>.
\<close>

datatype expr =
    actionExpr nat string expr
  | andExpr nat expr
  | notExpr nat expr
  | zeroOrOneExpr nat expr
  | zeroOrMoreExpr nat expr
  | oneOrMoreExpr nat expr
  | choiceExpr nat "expr list"
  | seqExpr nat "expr list"
  | labeledExpr nat string expr
  | ruleRefExpr nat string
  | litMatcher nat string bool
  | charClassMatcher nat string "rune list" "rune list" bool bool
  | anyMatcher nat

fun node_id :: "expr \<Rightarrow> nat" where
  "node_id (actionExpr i _ _) = i"
| "node_id (andExpr i _) = i"
| "node_id (notExpr i _) = i"
| "node_id (zeroOrOneExpr i _) = i"
| "node_id (zeroOrMoreExpr i _) = i"
| "node_id (oneOrMoreExpr i _) = i"
| "node_id (choiceExpr i _) = i"
| "node_id (seqExpr i _) = i"
| "node_id (labeledExpr i _ _) = i"
| "node_id (ruleRefExpr i _) = i"
| "node_id (litMatcher i _ _) = i"
| "node_id (charClassMatcher i _ _ _ _ _) = i"
| "node_id (anyMatcher i) = i"

record rule =
  name :: string
  displayName :: string
  expr :: expr

text \<open>
  The values of the parser (\<^verbatim>\<open>interface{}\<close>): nil, the bytes of a match, a slice of
  values, or a value \<open>'v\<close> built by an action.
\<close>

datatype 'v val = VNil | VBytes string | VList "'v val list" | VAst 'v

text \<open>
  What ends a call abnormally: a panic raised by action code, by \<open>parseRuleRefExpr\<close> on a
  missing name or by the top of an empty \<open>vstack\<close>, which a deferred \<open>recover\<close> catches; and
  the overflow of the goroutine stack, a fatal error of the runtime that ends the process
  and that no \<open>recover\<close> catches.
\<close>

datatype 'e panicv = action_panic 'e | missing_rule_name | index_out_of_range | stack_overflow

text \<open>The errors that the parser wraps into a \<open>parserError\<close>.\<close>

datatype 'e inner_error =
    errNoRule
  | errInvalidEncoding
  | undefined_rule string
  | no_match_found "string list"
  | action_error 'e
  | recovered_panic "'e panicv"

text \<open>
  \<^verbatim>\<open>type parserError struct\<close>. The \<open>prefix\<close> string is the file name, the position and
  the name of the rule on top of the rule stack; \<open>erule\<close> is that name, \<open>None\<close> on an
  empty stack.
\<close>

record 'e parserError =
  Inner :: "'e inner_error"
  epos :: position
  erule :: "string option"
  expected :: "string list"

datatype memo_key = RuleKey string | ExprKey nat

text \<open>What an action returns, or that it panics.\<close>

datatype ('v, 'e) act_result = Returns "'v val" "'e option" | Panics 'e

text \<open>
  \<^verbatim>\<open>type parser struct\<close>: the fields that change during a parse. \<open>vstack\<close> and \<open>rstack\<close>
  have their top at the head; a frame of \<open>vstack\<close> is a map from labels to values, a
  later binding shadowing an earlier one. The fields \<open>depth\<close>, \<open>debug\<close> and \<open>exprCnt\<close>
  only serve the debug output.
\<close>

record ('v, 'e) parser =
  pt :: savepoint
  cur_pos :: position
  cur_text :: string
  errs :: "'e parserError list"
  recover :: bool
  memoize :: bool
  memo :: "nat \<times> memo_key \<rightharpoonup> 'v val \<times> bool \<times> savepoint"
  vstack :: "(string \<times> 'v val) list list"
  rstack :: "rule list"
  maxFailPos :: position
  maxFailExpected :: "string list"
  maxFailInvertExpected :: bool

text \<open>
  What a parse reads and never changes: the fields \<open>filename\<close>, \<open>data\<close> and \<open>rules\<close> of
  the parser, \<^verbatim>\<open>unicode.ToLower\<close>, and the action code, which is outside the files
  at hand: \<open>action run frame pos text\<close> is the call of the method \<open>run\<close> with the top
  frame of \<open>vstack\<close> and \<open>p.cur\<close>.
\<close>

record ('v, 'e) env =
  filename :: string
  data :: string
  rules :: "string \<rightharpoonup> rule"
  toLower :: "rune \<Rightarrow> rune"
  action :: "string \<Rightarrow> (string \<times> 'v val) list \<Rightarrow> position \<Rightarrow> string \<Rightarrow> ('v, 'e) act_result"

text \<open>The result of a call: it returned \<open>(val, ok)\<close>, or it panicked.\<close>

datatype ('v, 'e) outcome =
    Done "'v val" bool "('v, 'e) parser"
  | Panicked "'e panicv" "('v, 'e) parser"

subsection \<open>The primitives of the parser\<close>

definition pushV :: "('v, 'e) parser \<Rightarrow> ('v, 'e) parser" where
  "pushV p = p\<lparr>vstack := [] # vstack p\<rparr>"

definition popV :: "('v, 'e) parser \<Rightarrow> ('v, 'e) parser" where
  "popV p = p\<lparr>vstack := tl (vstack p)\<rparr>"

definition addErrAt ::
  "('v, 'e) parser \<Rightarrow> 'e inner_error \<Rightarrow> position \<Rightarrow> string list \<Rightarrow> ('v, 'e) parser" where
  "addErrAt p err pos ex =
     p\<lparr>errs := errs p @
        [\<lparr>Inner = err, epos = pos,
          erule = (case rstack p of
                     [] \<Rightarrow> None
                   | r # _ \<Rightarrow> Some (if displayName r \<noteq> [] then displayName r else name r)),
          expected = ex\<rparr>]\<rparr>"

definition addErr :: "('v, 'e) parser \<Rightarrow> 'e inner_error \<Rightarrow> ('v, 'e) parser" where
  "addErr p err = addErrAt p err (position.truncate (pt p)) []"

definition failAt :: "('v, 'e) parser \<Rightarrow> bool \<Rightarrow> position \<Rightarrow> string \<Rightarrow> ('v, 'e) parser" where
  "failAt p fail pos want =
     (if fail = maxFailInvertExpected p then
        (if offset pos < offset (maxFailPos p) then p
         else
           (let p1 = (if offset (maxFailPos p) < offset pos
                      then p\<lparr>maxFailPos := pos, maxFailExpected := []\<rparr> else p);
                want1 = (if maxFailInvertExpected p1 then ''!'' @ want else want)
            in p1\<lparr>maxFailExpected := maxFailExpected p1 @ [want1]\<rparr>))
      else p)"

text \<open>\<^verbatim>\<open>func (p *parser) read()\<close>: advance to the next rune.\<close>

definition read :: "('v, 'e) env \<Rightarrow> ('v, 'e) parser \<Rightarrow> ('v, 'e) parser" where
  "read E p =
     (let off = offset (pt p) + w (pt p);
          d = DecodeRune (drop off (data E));
          pt1 = (pt p)\<lparr>offset := off, rn := fst d, w := snd d, col := col (pt p) + 1\<rparr>;
          pt2 = (if fst d = 10 then pt1\<lparr>line := line pt1 + 1, col := 0\<rparr> else pt1);
          p1 = p\<lparr>pt := pt2\<rparr>
      in if fst d = RuneError \<and> snd d = 1 then addErr p1 errInvalidEncoding else p1)"

definition restore :: "('v, 'e) parser \<Rightarrow> savepoint \<Rightarrow> ('v, 'e) parser" where
  "restore p sp = (if offset sp = offset (pt p) then p else p\<lparr>pt := sp\<rparr>)"

definition sliceFrom :: "('v, 'e) env \<Rightarrow> ('v, 'e) parser \<Rightarrow> savepoint \<Rightarrow> string" where
  "sliceFrom E p start = take (offset (pt p) - offset start) (drop (offset start) (data E))"

definition getMemoized ::
  "('v, 'e) parser \<Rightarrow> memo_key \<Rightarrow> ('v val \<times> bool \<times> savepoint) option" where
  "getMemoized p node = memo p (offset (pt p), node)"

definition setMemoized ::
  "('v, 'e) parser \<Rightarrow> savepoint \<Rightarrow> memo_key \<Rightarrow> 'v val \<times> bool \<times> savepoint \<Rightarrow> ('v, 'e) parser" where
  "setMemoized p sp node tuple = p\<lparr>memo := (memo p)((offset sp, node) \<mapsto> tuple)\<rparr>"

text \<open>\<^verbatim>\<open>fmt.Sprintf("%q", s)\<close> on the literals of the grammar: the quote, the backslash and the newline are escaped.\<close>

fun quote_body :: "string \<Rightarrow> string" where
  "quote_body [] = []"
| "quote_body (c # cs) =
     (if c = CHR ''\"'' then CHR 0x5C # CHR ''\"'' # quote_body cs
      else if c = CHR 0x5C then CHR 0x5C # CHR 0x5C # quote_body cs
      else if c = CHR 0x0A then CHR 0x5C # CHR ''n'' # quote_body cs
      else c # quote_body cs)"

definition go_quote :: "string \<Rightarrow> string" where
  "go_quote s = CHR ''\"'' # quote_body s @ [CHR ''\"'']"

subsection \<open>The matchers\<close>

definition parseAnyMatcher :: "('v, 'e) env \<Rightarrow> ('v, 'e) parser \<Rightarrow> ('v, 'e) outcome" where
  "parseAnyMatcher E p =
     (if rn (pt p) \<noteq> RuneError then
        (let start = pt p; p1 = read E p; p2 = failAt p1 True (position.truncate start) ''.''
         in Done (VBytes (sliceFrom E p2 start)) True p2)
      else Done VNil False (failAt p False (position.truncate (pt p)) ''.''))"

text \<open>The three loops of \<open>parseCharClassMatcher\<close> over \<open>chars\<close>, \<open>ranges\<close> (in pairs) and \<open>classes\<close> find a match or not.\<close>

fun in_ranges :: "rune \<Rightarrow> rune list \<Rightarrow> bool" where
  "in_ranges c (lo # hi # rs) = (if lo \<le> c \<and> c \<le> hi then True else in_ranges c rs)"
| "in_ranges c _ = False"

definition parseCharClassMatcher ::
  "('v, 'e) env \<Rightarrow> string \<Rightarrow> rune list \<Rightarrow> rune list \<Rightarrow> bool \<Rightarrow> bool \<Rightarrow> ('v, 'e) parser \<Rightarrow> ('v, 'e) outcome" where
  "parseCharClassMatcher E val chars ranges ignoreCase inverted p =
     (let start = pt p in
      if rn (pt p) = RuneError then Done VNil False (failAt p False (position.truncate start) val)
      else
        (let c = (if ignoreCase then toLower E (rn (pt p)) else rn (pt p));
             found = (c \<in> set chars \<or> in_ranges c ranges)
         in if found \<noteq> inverted then
              (let p1 = read E p; p2 = failAt p1 True (position.truncate start) val
               in Done (VBytes (sliceFrom E p2 start)) True p2)
            else Done VNil False (failAt p False (position.truncate start) val)))"

text \<open>The loop of \<open>parseLitMatcher\<close> over the runes of the literal still to match.\<close>

fun lit_loop ::
  "('v, 'e) env \<Rightarrow> bool \<Rightarrow> string \<Rightarrow> savepoint \<Rightarrow> rune list \<Rightarrow> ('v, 'e) parser \<Rightarrow> ('v, 'e) outcome" where
  "lit_loop E ignoreCase val start [] p =
     (let p1 = failAt p True (position.truncate start) val
      in Done (VBytes (sliceFrom E p1 start)) True p1)"
| "lit_loop E ignoreCase val start (want # wants) p =
     (let c = (if ignoreCase then toLower E (rn (pt p)) else rn (pt p))
      in if c \<noteq> want then Done VNil False (restore (failAt p False (position.truncate start) val) start)
         else lit_loop E ignoreCase val start wants (read E p))"

definition parseLitMatcher ::
  "('v, 'e) env \<Rightarrow> string \<Rightarrow> bool \<Rightarrow> ('v, 'e) parser \<Rightarrow> ('v, 'e) outcome" where
  "parseLitMatcher E lit ignoreCase p =
     lit_loop E ignoreCase (go_quote lit @ (if ignoreCase then ''i'' else '''')) (pt p) (runes lit) p"

subsection \<open>The expressions\<close>

text \<open>
  The parsing functions call each other recursively, and the loops of
  \<open>parseZeroOrMoreExpr\<close> and \<open>parseOneOrMoreExpr\<close> need not end. Every function below
  therefore takes the recursive call \<open>self\<close> as an argument: \<open>self (Expr e)\<close> is
  \<open>p.parseExpr(e)\<close>, and the two loop tasks are one more round of a loop with the values
  collected so far. \<open>exec\<close> below ties the knot on fuel; a call returns \<open>None\<close> when the
  fuel is exhausted.
\<close>

datatype 'v task = Expr expr | ZeroOrMoreLoop expr "'v val list" | OneOrMoreLoop expr "'v val list"

text \<open>Continue with the result of a call that returned; a panic unwinds.\<close>

definition and_then ::
  "('v, 'e) outcome option \<Rightarrow> ('v val \<Rightarrow> bool \<Rightarrow> ('v, 'e) parser \<Rightarrow> ('v, 'e) outcome option) \<Rightarrow>
   ('v, 'e) outcome option" where
  "and_then r k =
     (case r of
        None \<Rightarrow> None
      | Some (Panicked x p) \<Rightarrow> Some (Panicked x p)
      | Some (Done v ok p) \<Rightarrow> k v ok p)"

definition parseActionExpr ::
  "('v, 'e) env \<Rightarrow> ('v task \<Rightarrow> ('v, 'e) parser \<Rightarrow> ('v, 'e) outcome option) \<Rightarrow>
   string \<Rightarrow> expr \<Rightarrow> ('v, 'e) parser \<Rightarrow> ('v, 'e) outcome option" where
  "parseActionExpr E self run e p =
     (let start = pt p in
      and_then (self (Expr e) p) (\<lambda>val ok p1.
        if ok then
          (let p2 = p1\<lparr>cur_pos := position.truncate start, cur_text := sliceFrom E p1 start\<rparr> in
           case vstack p2 of
             [] \<Rightarrow> Some (Panicked index_out_of_range p2)
           | stack # _ \<Rightarrow>
               (case action E run stack (cur_pos p2) (cur_text p2) of
                  Panics x \<Rightarrow> Some (Panicked (action_panic x) p2)
                | Returns actVal err \<Rightarrow>
                    Some (Done actVal ok
                      (case err of
                         None \<Rightarrow> p2
                       | Some x \<Rightarrow> addErrAt p2 (action_error x) (position.truncate start) []))))
        else Some (Done val ok p1)))"

definition parseAndExpr ::
  "('v task \<Rightarrow> ('v, 'e) parser \<Rightarrow> ('v, 'e) outcome option) \<Rightarrow> expr \<Rightarrow> ('v, 'e) parser \<Rightarrow>
   ('v, 'e) outcome option" where
  "parseAndExpr self e p =
     (let pt0 = pt p in
      and_then (self (Expr e) (pushV p)) (\<lambda>val ok p1. Some (Done VNil ok (restore (popV p1) pt0))))"

definition parseNotExpr ::
  "('v task \<Rightarrow> ('v, 'e) parser \<Rightarrow> ('v, 'e) outcome option) \<Rightarrow> expr \<Rightarrow> ('v, 'e) parser \<Rightarrow>
   ('v, 'e) outcome option" where
  "parseNotExpr self e p =
     (let pt0 = pt p;
          p0 = (pushV p)\<lparr>maxFailInvertExpected := \<not> maxFailInvertExpected p\<rparr> in
      and_then (self (Expr e) p0) (\<lambda>val ok p1.
        Some (Done VNil (\<not> ok)
          (restore (popV (p1\<lparr>maxFailInvertExpected := \<not> maxFailInvertExpected p1\<rparr>)) pt0))))"

fun choice_loop ::
  "('v task \<Rightarrow> ('v, 'e) parser \<Rightarrow> ('v, 'e) outcome option) \<Rightarrow> expr list \<Rightarrow> ('v, 'e) parser \<Rightarrow>
   ('v, 'e) outcome option" where
  "choice_loop self [] p = Some (Done VNil False p)"
| "choice_loop self (alt # alts) p =
     and_then (self (Expr alt) (pushV p)) (\<lambda>val ok p1.
       if ok then Some (Done val ok (popV p1)) else choice_loop self alts (popV p1))"

definition parseChoiceExpr ::
  "('v task \<Rightarrow> ('v, 'e) parser \<Rightarrow> ('v, 'e) outcome option) \<Rightarrow> expr list \<Rightarrow> ('v, 'e) parser \<Rightarrow>
   ('v, 'e) outcome option" where
  "parseChoiceExpr self alternatives p = choice_loop self alternatives p"

definition parseLabeledExpr ::
  "('v task \<Rightarrow> ('v, 'e) parser \<Rightarrow> ('v, 'e) outcome option) \<Rightarrow> string \<Rightarrow> expr \<Rightarrow> ('v, 'e) parser \<Rightarrow>
   ('v, 'e) outcome option" where
  "parseLabeledExpr self label e p =
     and_then (self (Expr e) (pushV p)) (\<lambda>val ok p1.
       (let p2 = popV p1 in
        if ok \<and> label \<noteq> [] then
          (case vstack p2 of
             [] \<Rightarrow> Some (Panicked index_out_of_range p2)
           | m # ms \<Rightarrow> Some (Done val ok (p2\<lparr>vstack := ((label, val) # m) # ms\<rparr>)))
        else Some (Done val ok p2)))"

text \<open>One round of the loop of \<open>parseOneOrMoreExpr\<close>, with the values \<open>vals\<close> so far.\<close>

definition oneOrMore_round ::
  "('v task \<Rightarrow> ('v, 'e) parser \<Rightarrow> ('v, 'e) outcome option) \<Rightarrow> expr \<Rightarrow> 'v val list \<Rightarrow> ('v, 'e) parser \<Rightarrow>
   ('v, 'e) outcome option" where
  "oneOrMore_round self e vals p =
     and_then (self (Expr e) (pushV p)) (\<lambda>val ok p1.
       (let p2 = popV p1 in
        if \<not> ok then
          (if vals = [] then Some (Done VNil False p2) else Some (Done (VList vals) True p2))
        else self (OneOrMoreLoop e (vals @ [val])) p2))"

definition parseOneOrMoreExpr ::
  "('v task \<Rightarrow> ('v, 'e) parser \<Rightarrow> ('v, 'e) outcome option) \<Rightarrow> expr \<Rightarrow> ('v, 'e) parser \<Rightarrow>
   ('v, 'e) outcome option" where
  "parseOneOrMoreExpr self e p = oneOrMore_round self e [] p"

text \<open>One round of the loop of \<open>parseZeroOrMoreExpr\<close>.\<close>

definition zeroOrMore_round ::
  "('v task \<Rightarrow> ('v, 'e) parser \<Rightarrow> ('v, 'e) outcome option) \<Rightarrow> expr \<Rightarrow> 'v val list \<Rightarrow> ('v, 'e) parser \<Rightarrow>
   ('v, 'e) outcome option" where
  "zeroOrMore_round self e vals p =
     and_then (self (Expr e) (pushV p)) (\<lambda>val ok p1.
       (let p2 = popV p1 in
        if \<not> ok then Some (Done (VList vals) True p2)
        else self (ZeroOrMoreLoop e (vals @ [val])) p2))"

definition parseZeroOrMoreExpr ::
  "('v task \<Rightarrow> ('v, 'e) parser \<Rightarrow> ('v, 'e) outcome option) \<Rightarrow> expr \<Rightarrow> ('v, 'e) parser \<Rightarrow>
   ('v, 'e) outcome option" where
  "parseZeroOrMoreExpr self e p = zeroOrMore_round self e [] p"

definition parseZeroOrOneExpr ::
  "('v task \<Rightarrow> ('v, 'e) parser \<Rightarrow> ('v, 'e) outcome option) \<Rightarrow> expr \<Rightarrow> ('v, 'e) parser \<Rightarrow>
   ('v, 'e) outcome option" where
  "parseZeroOrOneExpr self e p =
     and_then (self (Expr e) (pushV p)) (\<lambda>val ok p1. Some (Done val True (popV p1)))"

fun seq_loop ::
  "('v task \<Rightarrow> ('v, 'e) parser \<Rightarrow> ('v, 'e) outcome option) \<Rightarrow> savepoint \<Rightarrow> expr list \<Rightarrow> 'v val list \<Rightarrow>
   ('v, 'e) parser \<Rightarrow> ('v, 'e) outcome option" where
  "seq_loop self pt0 [] vals p = Some (Done (VList vals) True p)"
| "seq_loop self pt0 (e # es) vals p =
     and_then (self (Expr e) p) (\<lambda>val ok p1.
       if \<not> ok then Some (Done VNil False (restore p1 pt0))
       else seq_loop self pt0 es (vals @ [val]) p1)"

definition parseSeqExpr ::
  "('v task \<Rightarrow> ('v, 'e) parser \<Rightarrow> ('v, 'e) outcome option) \<Rightarrow> expr list \<Rightarrow> ('v, 'e) parser \<Rightarrow>
   ('v, 'e) outcome option" where
  "parseSeqExpr self exprs p = seq_loop self (pt p) exprs [] p"

text \<open>\<^verbatim>\<open>func (p *parser) parseRule(rule *rule)\<close>.\<close>

definition parseRule ::
  "('v task \<Rightarrow> ('v, 'e) parser \<Rightarrow> ('v, 'e) outcome option) \<Rightarrow> rule \<Rightarrow> ('v, 'e) parser \<Rightarrow>
   ('v, 'e) outcome option" where
  "parseRule self r p =
     (case (if memoize p then getMemoized p (RuleKey (name r)) else None) of
        Some (v, b, end) \<Rightarrow> Some (Done v b (restore p end))
      | None \<Rightarrow>
          (let start = pt p;
               p0 = pushV (p\<lparr>rstack := r # rstack p\<rparr>) in
           and_then (self (Expr (expr r)) p0) (\<lambda>val ok p1.
             (let p2 = popV p1;
                  p3 = p2\<lparr>rstack := tl (rstack p2)\<rparr>
              in Some (Done val ok
                   (if memoize p3 then setMemoized p3 start (RuleKey (name r)) (val, ok, pt p3) else p3))))))"

definition parseRuleRefExpr ::
  "('v, 'e) env \<Rightarrow> ('v task \<Rightarrow> ('v, 'e) parser \<Rightarrow> ('v, 'e) outcome option) \<Rightarrow> string \<Rightarrow>
   ('v, 'e) parser \<Rightarrow> ('v, 'e) outcome option" where
  "parseRuleRefExpr E self nm p =
     (if nm = [] then Some (Panicked missing_rule_name p)
      else case rules E nm of
             None \<Rightarrow> Some (Done VNil False (addErr p (undefined_rule nm)))
           | Some r \<Rightarrow> parseRule self r p)"

text \<open>The type switch of \<open>parseExpr\<close>.\<close>

fun parseExpr_switch ::
  "('v, 'e) env \<Rightarrow> ('v task \<Rightarrow> ('v, 'e) parser \<Rightarrow> ('v, 'e) outcome option) \<Rightarrow> expr \<Rightarrow>
   ('v, 'e) parser \<Rightarrow> ('v, 'e) outcome option" where
  "parseExpr_switch E self (actionExpr i run e) p = parseActionExpr E self run e p"
| "parseExpr_switch E self (andExpr i e) p = parseAndExpr self e p"
| "parseExpr_switch E self (anyMatcher i) p = Some (parseAnyMatcher E p)"
| "parseExpr_switch E self (charClassMatcher i val chars ranges ignoreCase inverted) p =
     Some (parseCharClassMatcher E val chars ranges ignoreCase inverted p)"
| "parseExpr_switch E self (choiceExpr i alternatives) p = parseChoiceExpr self alternatives p"
| "parseExpr_switch E self (labeledExpr i label e) p = parseLabeledExpr self label e p"
| "parseExpr_switch E self (litMatcher i lit ignoreCase) p = Some (parseLitMatcher E lit ignoreCase p)"
| "parseExpr_switch E self (notExpr i e) p = parseNotExpr self e p"
| "parseExpr_switch E self (oneOrMoreExpr i e) p = parseOneOrMoreExpr self e p"
| "parseExpr_switch E self (ruleRefExpr i nm) p = parseRuleRefExpr E self nm p"
| "parseExpr_switch E self (seqExpr i exprs) p = parseSeqExpr self exprs p"
| "parseExpr_switch E self (zeroOrMoreExpr i e) p = parseZeroOrMoreExpr self e p"
| "parseExpr_switch E self (zeroOrOneExpr i e) p = parseZeroOrOneExpr self e p"

text \<open>\<^verbatim>\<open>func (p *parser) parseExpr(expr interface{})\<close>.\<close>

definition parseExpr ::
  "('v, 'e) env \<Rightarrow> ('v task \<Rightarrow> ('v, 'e) parser \<Rightarrow> ('v, 'e) outcome option) \<Rightarrow> expr \<Rightarrow>
   ('v, 'e) parser \<Rightarrow> ('v, 'e) outcome option" where
  "parseExpr E self e p =
     (if memoize p then
        (case getMemoized p (ExprKey (node_id e)) of
           Some (v, b, end) \<Rightarrow> Some (Done v b (restore p end))
         | None \<Rightarrow>
             (let pt0 = pt p in
              and_then (parseExpr_switch E self e p) (\<lambda>val ok p1.
                Some (Done val ok (setMemoized p1 pt0 (ExprKey (node_id e)) (val, ok, pt p1))))))
      else parseExpr_switch E self e p)"

definition step ::
  "('v, 'e) env \<Rightarrow> ('v task \<Rightarrow> ('v, 'e) parser \<Rightarrow> ('v, 'e) outcome option) \<Rightarrow> 'v task \<Rightarrow>
   ('v, 'e) parser \<Rightarrow> ('v, 'e) outcome option" where
  "step E self t p =
     (case t of
        Expr e \<Rightarrow> parseExpr E self e p
      | ZeroOrMoreLoop e vals \<Rightarrow> zeroOrMore_round self e vals p
      | OneOrMoreLoop e vals \<Rightarrow> oneOrMore_round self e vals p)"

text \<open>
  The recursive calls. The functions of the parser call \<open>parseExpr\<close> recursively, so the
  depth of the Go call stack grows with the nesting of the expressions and of the input.
  The runtime bounds the stack of a goroutine: \<open>d\<close> is the number of nested calls of
  \<open>parseExpr\<close> for which the stack still has room (\<open>\<infinity>\<close> for a stack without bound), and
  a call made when no room is left ends in \<open>stack_overflow\<close>. The rounds of the two loops
  run in the frame of their function and take no room.
\<close>

definition nested ::
  "enat \<Rightarrow> (enat \<Rightarrow> 'v task \<Rightarrow> ('v, 'e) parser \<Rightarrow> ('v, 'e) outcome option) \<Rightarrow> 'v task \<Rightarrow>
   ('v, 'e) parser \<Rightarrow> ('v, 'e) outcome option" where
  "nested d run t p =
     (case t of
        Expr e \<Rightarrow> if d = 0 then Some (Panicked stack_overflow p) else run (d - 1) t p
      | ZeroOrMoreLoop e vals \<Rightarrow> run d t p
      | OneOrMoreLoop e vals \<Rightarrow> run d t p)"

text \<open>
  \<open>exec E fuel d t p\<close> runs the task \<open>t\<close> with room for \<open>d\<close> nested calls. The loops of the
  parser need not end, so the recursion is on \<open>fuel\<close>, a bound on the number of calls and
  rounds along one path: \<open>None\<close> says that the run needs more than \<open>fuel\<close>.
\<close>

fun exec ::
  "('v, 'e) env \<Rightarrow> nat \<Rightarrow> enat \<Rightarrow> 'v task \<Rightarrow> ('v, 'e) parser \<Rightarrow> ('v, 'e) outcome option" where
  "exec E 0 d t p = None"
| "exec E (Suc fuel) d t p = step E (nested d (exec E fuel)) t p"

subsection \<open>Parse\<close>

text \<open>\<^verbatim>\<open>func (e *errList) dedupe()\<close>: the first error of every message; the message is made of \<open>Inner\<close>, the position and the rule.\<close>

fun dedupe_loop :: "'e parserError list \<Rightarrow> 'e parserError list \<Rightarrow> 'e parserError list" where
  "dedupe_loop seen [] = []"
| "dedupe_loop seen (e # es) =
     (if (Inner e, epos e, erule e) \<in> set (map (\<lambda>x. (Inner x, epos x, erule x)) seen)
      then dedupe_loop seen es else e # dedupe_loop (e # seen) es)"

text \<open>\<^verbatim>\<open>func (e errList) err() error\<close>: \<open>[]\<close> is the nil error.\<close>

definition err :: "'e parserError list \<Rightarrow> 'e parserError list" where
  "err es = dedupe_loop [] es"

text \<open>\<^verbatim>\<open>sort.Strings\<close>: the strings in increasing order of their bytes.\<close>

fun bytes_less :: "string \<Rightarrow> string \<Rightarrow> bool" where
  "bytes_less [] [] = False"
| "bytes_less [] (d # ds) = True"
| "bytes_less (c # cs) [] = False"
| "bytes_less (c # cs) (d # ds) =
     ((of_char c :: nat) < of_char d \<or> (c = d \<and> bytes_less cs ds))"

fun insert_string :: "string \<Rightarrow> string list \<Rightarrow> string list" where
  "insert_string s [] = [s]"
| "insert_string s (t # strs) = (if bytes_less t s then t # insert_string s strs else s # t # strs)"

fun sort_Strings :: "string list \<Rightarrow> string list" where
  "sort_Strings [] = []"
| "sort_Strings (s # ss) = insert_string s (sort_Strings ss)"

text \<open>The expected tokens of the error "no match found": the set of \<open>maxFailExpected\<close>, sorted, with "!." turned into a final "EOF".\<close>

definition expected_tokens :: "string list \<Rightarrow> string list" where
  "expected_tokens mfe =
     (let keys = sort_Strings (remdups (filter (\<lambda>v. v \<noteq> ''!.'') mfe))
      in if ''!.'' \<in> set mfe then keys @ [''EOF''] else keys)"

definition buildRulesTable :: "rule list \<Rightarrow> string \<rightharpoonup> rule" where
  "buildRulesTable rs = map_of (rev (map (\<lambda>r. (name r, r)) rs))"

text \<open>What \<open>Parse\<close> returns, \<open>(val, err)\<close>, or that a panic or a stack overflow leaves it.\<close>

datatype ('v, 'e) result = Result "'v val" "'e parserError list" | Crash "'e panicv"

text \<open>
  \<^verbatim>\<open>func (p *parser) parse(g *grammar) (val interface{}, err error)\<close>, with the deferred
  recovery: a panic becomes an error when \<open>recover\<close> is set and leaves \<open>parse\<close> otherwise; a
  stack overflow ends the process in both cases. \<open>d\<close> is the room on the stack when
  \<open>parseRule\<close> is entered.
\<close>

definition parse ::
  "enat \<Rightarrow> nat \<Rightarrow> ('v, 'e) env \<Rightarrow> ('v, 'e) parser \<Rightarrow> rule list \<Rightarrow> ('v, 'e) result option" where
  "parse d fuel E p gr =
     (case gr of
        [] \<Rightarrow> Some (Result VNil (err (errs (addErr p errNoRule))))
      | r0 # _ \<Rightarrow>
          (let E1 = E\<lparr>rules := buildRulesTable gr\<rparr> in
           case parseRule (nested d (exec E1 fuel)) r0 (read E1 p) of
             None \<Rightarrow> None
           | Some (Panicked x p1) \<Rightarrow>
               if x \<noteq> stack_overflow \<and> recover p
               then Some (Result VNil (err (errs (addErr p1 (recovered_panic x)))))
               else Some (Crash x)
           | Some (Done val ok p1) \<Rightarrow>
               if \<not> ok then
                 (let ex = expected_tokens (maxFailExpected p1);
                      p2 = (if errs p1 = [] then addErrAt p1 (no_match_found ex) (maxFailPos p1) ex else p1)
                  in Some (Result VNil (err (errs p2))))
               else Some (Result val (err (errs p1)))))"

text \<open>The options of \<open>Parse\<close>; \<open>GlobalStore\<close> only feeds the action code, and \<open>Debug\<close> the debug output.\<close>

datatype Option = Debug bool | Memoize bool | Recover bool

fun setOption :: "Option \<Rightarrow> ('v, 'e) parser \<Rightarrow> ('v, 'e) parser" where
  "setOption (Debug b) p = p"
| "setOption (Memoize b) p = p\<lparr>memoize := b\<rparr>"
| "setOption (Recover b) p = p\<lparr>recover := b\<rparr>"

definition newParser :: "Option list \<Rightarrow> ('v, 'e) parser" where
  "newParser opts =
     fold setOption opts
       \<lparr>pt = \<lparr>line = 1, col = 0, offset = 0, rn = 0, w = 0\<rparr>,
         cur_pos = \<lparr>line = 0, col = 0, offset = 0\<rparr>, cur_text = [],
         errs = [], recover = True, memoize = False, memo = Map.empty, vstack = [], rstack = [],
         maxFailPos = \<lparr>line = 1, col = 1, offset = 0\<rparr>, maxFailExpected = [],
         maxFailInvertExpected = False\<rparr>"

subsection \<open>The grammar \<open>g\<close> of IFQL\<close>

text \<open>
  The rules of \<^verbatim>\<open>var g = &grammar{...}\<close>, one constant for the expression of each rule; the nodes
  are numbered in the order of the source.
\<close>

definition g_Start :: expr where
  \<open>g_Start =
     actionExpr 0 ''callonStart1''
     (seqExpr 1
      [ruleRefExpr 2 ''__'',
       labeledExpr 3 ''program'' (ruleRefExpr 4 ''Program''),
       ruleRefExpr 5 ''__''])\<close>

definition g_Program :: expr where
  \<open>g_Program =
     actionExpr 6 ''callonProgram1''
     (labeledExpr 7 ''body'' (ruleRefExpr 8 ''SourceElements''))\<close>

definition g_SourceElements :: expr where
  \<open>g_SourceElements =
     actionExpr 9 ''callonSourceElements1''
     (seqExpr 10
      [labeledExpr 11 ''head'' (ruleRefExpr 12 ''SourceElement''),
       labeledExpr 13 ''tail'' (zeroOrMoreExpr 14 (seqExpr 15
          [ruleRefExpr 16 ''__'',
           ruleRefExpr 17 ''SourceElement'']))])\<close>

definition g_SourceElement :: expr where
  \<open>g_SourceElement =
     ruleRefExpr 18 ''Statement''\<close>

definition g_Statement :: expr where
  \<open>g_Statement =
     choiceExpr 19
     [labeledExpr 20 ''varstmt'' (ruleRefExpr 21 ''VariableStatement''),
      labeledExpr 22 ''exprstmt'' (ruleRefExpr 23 ''ExpressionStatement'')]\<close>

definition g_VariableStatement :: expr where
  \<open>g_VariableStatement =
     actionExpr 24 ''callonVariableStatement1''
     (seqExpr 25
      [ruleRefExpr 26 ''VarToken'',
       ruleRefExpr 27 ''__'',
       labeledExpr 28 ''declarations'' (ruleRefExpr 29 ''VariableDeclarationList'')])\<close>

definition g_VariableDeclarationList :: expr where
  \<open>g_VariableDeclarationList =
     actionExpr 30 ''callonVariableDeclarationList1''
     (seqExpr 31
      [labeledExpr 32 ''head'' (ruleRefExpr 33 ''VariableDeclaration''),
       labeledExpr 34 ''tail'' (zeroOrMoreExpr 35 (seqExpr 36
          [ruleRefExpr 37 ''__'',
           litMatcher 38 '','' False,
           ruleRefExpr 39 ''__'',
           ruleRefExpr 40 ''VariableDeclaration'']))])\<close>

definition g_VarToken :: expr where
  \<open>g_VarToken =
     litMatcher 41 ''var'' False\<close>

definition g_VariableDeclaration :: expr where
  \<open>g_VariableDeclaration =
     actionExpr 42 ''callonVariableDeclaration1''
     (seqExpr 43
      [labeledExpr 44 ''id'' (ruleRefExpr 45 ''String''),
       ruleRefExpr 46 ''__'',
       labeledExpr 47 ''initExpr'' (ruleRefExpr 48 ''Initializer'')])\<close>

definition g_Initializer :: expr where
  \<open>g_Initializer =
     actionExpr 49 ''callonInitializer1''
     (seqExpr 50
      [litMatcher 51 ''='' False,
       notExpr 52 (litMatcher 53 ''='' False),
       ruleRefExpr 54 ''__'',
       labeledExpr 55 ''expression'' (ruleRefExpr 56 ''VariableExpression'')])\<close>

definition g_VariableExpression :: expr where
  \<open>g_VariableExpression =
     choiceExpr 57
     [ruleRefExpr 58 ''CallExpression'',
      ruleRefExpr 59 ''StringLiteral'',
      ruleRefExpr 60 ''RegularExpressionLiteral'',
      ruleRefExpr 61 ''Duration'',
      ruleRefExpr 62 ''DateTime'',
      ruleRefExpr 63 ''Number'',
      ruleRefExpr 64 ''Field'']\<close>

definition g_ExpressionStatement :: expr where
  \<open>g_ExpressionStatement =
     actionExpr 65 ''callonExpressionStatement1''
     (labeledExpr 66 ''call'' (ruleRefExpr 67 ''CallExpression''))\<close>

definition g_MemberExpression :: expr where
  \<open>g_MemberExpression =
     actionExpr 68 ''callonMemberExpression1''
     (seqExpr 69
      [labeledExpr 70 ''head'' (ruleRefExpr 71 ''String''),
       labeledExpr 72 ''tail'' (zeroOrMoreExpr 73 (actionExpr 74 ''callonMemberExpression7''
          (seqExpr 75
           [ruleRefExpr 76 ''__'',
            litMatcher 77 ''.'' False,
            ruleRefExpr 78 ''__'',
            labeledExpr 79 ''property'' (ruleRefExpr 80 ''String'')])))])\<close>

definition g_CallExpression :: expr where
  \<open>g_CallExpression =
     actionExpr 81 ''callonCallExpression1''
     (seqExpr 82
      [labeledExpr 83 ''head'' (actionExpr 84 ''callonCallExpression4''
         (seqExpr 85
          [labeledExpr 86 ''callee'' (ruleRefExpr 87 ''MemberExpression''),
           ruleRefExpr 88 ''__'',
           labeledExpr 89 ''args'' (ruleRefExpr 90 ''Arguments'')])),
       labeledExpr 91 ''tail'' (zeroOrMoreExpr 92 (choiceExpr 93
          [actionExpr 94 ''callonCallExpression14''
            (seqExpr 95
             [ruleRefExpr 96 ''__'',
              labeledExpr 97 ''args'' (ruleRefExpr 98 ''Arguments'')]),
           actionExpr 99 ''callonCallExpression19''
            (seqExpr 100
             [ruleRefExpr 101 ''__'',
              litMatcher 102 ''.'' False,
              ruleRefExpr 103 ''__'',
              labeledExpr 104 ''property'' (ruleRefExpr 105 ''String'')])]))])\<close>

definition g_Arguments :: expr where
  \<open>g_Arguments =
     actionExpr 106 ''callonArguments1''
     (seqExpr 107
      [litMatcher 108 ''('' False,
       ruleRefExpr 109 ''__'',
       labeledExpr 110 ''args'' (zeroOrOneExpr 111 (ruleRefExpr 112 ''FunctionArgs'')),
       ruleRefExpr 113 ''__'',
       litMatcher 114 '')'' False])\<close>

definition g_FunctionArgs :: expr where
  \<open>g_FunctionArgs =
     actionExpr 115 ''callonFunctionArgs1''
     (seqExpr 116
      [labeledExpr 117 ''first'' (ruleRefExpr 118 ''FunctionArg''),
       ruleRefExpr 119 ''__'',
       labeledExpr 120 ''rest'' (zeroOrMoreExpr 121 (ruleRefExpr 122 ''FunctionArgsRest''))])\<close>

definition g_FunctionArgsRest :: expr where
  \<open>g_FunctionArgsRest =
     actionExpr 123 ''callonFunctionArgsRest1''
     (seqExpr 124
      [litMatcher 125 '','' False,
       ruleRefExpr 126 ''__'',
       labeledExpr 127 ''arg'' (ruleRefExpr 128 ''FunctionArg'')])\<close>

definition g_FunctionArg :: expr where
  \<open>g_FunctionArg =
     actionExpr 129 ''callonFunctionArg1''
     (seqExpr 130
      [labeledExpr 131 ''key'' (ruleRefExpr 132 ''String''),
       ruleRefExpr 133 ''__'',
       litMatcher 134 '':'' False,
       ruleRefExpr 135 ''__'',
       labeledExpr 136 ''value'' (ruleRefExpr 137 ''FunctionArgValues'')])\<close>

definition g_FunctionArgValues :: expr where
  \<open>g_FunctionArgValues =
     choiceExpr 138
     [ruleRefExpr 139 ''WhereExpr'',
      ruleRefExpr 140 ''StringLiteral'',
      ruleRefExpr 141 ''RegularExpressionLiteral'',
      ruleRefExpr 142 ''Duration'',
      ruleRefExpr 143 ''DateTime'',
      ruleRefExpr 144 ''Number'',
      ruleRefExpr 145 ''String'']\<close>

definition g_WhereExpr :: expr where
  \<open>g_WhereExpr =
     actionExpr 146 ''callonWhereExpr1''
     (seqExpr 147
      [litMatcher 148 ''{'' False,
       ruleRefExpr 149 ''__'',
       labeledExpr 150 ''expr'' (ruleRefExpr 151 ''Expr''),
       ruleRefExpr 152 ''__'',
       litMatcher 153 ''}'' False])\<close>

definition g_Expr :: expr where
  \<open>g_Expr =
     ruleRefExpr 154 ''Logical''\<close>

definition g_LogicalOperators :: expr where
  \<open>g_LogicalOperators =
     actionExpr 155 ''callonLogicalOperators1''
     (choiceExpr 156
      [litMatcher 157 ''or'' True,
       litMatcher 158 ''and'' True])\<close>

definition g_Logical :: expr where
  \<open>g_Logical =
     actionExpr 159 ''callonLogical1''
     (seqExpr 160
      [labeledExpr 161 ''head'' (ruleRefExpr 162 ''Equality''),
       labeledExpr 163 ''tail'' (zeroOrMoreExpr 164 (seqExpr 165
          [ruleRefExpr 166 ''__'',
           ruleRefExpr 167 ''LogicalOperators'',
           ruleRefExpr 168 ''__'',
           ruleRefExpr 169 ''Equality'']))])\<close>

definition g_EqualityOperators :: expr where
  \<open>g_EqualityOperators =
     actionExpr 170 ''callonEqualityOperators1''
     (choiceExpr 171
      [litMatcher 172 ''=='' False,
       litMatcher 173 ''!='' False])\<close>

definition g_Equality :: expr where
  \<open>g_Equality =
     actionExpr 174 ''callonEquality1''
     (seqExpr 175
      [labeledExpr 176 ''head'' (ruleRefExpr 177 ''Relational''),
       labeledExpr 178 ''tail'' (zeroOrMoreExpr 179 (seqExpr 180
          [ruleRefExpr 181 ''__'',
           ruleRefExpr 182 ''EqualityOperators'',
           ruleRefExpr 183 ''__'',
           ruleRefExpr 184 ''Relational'']))])\<close>

definition g_RelationalOperators :: expr where
  \<open>g_RelationalOperators =
     actionExpr 185 ''callonRelationalOperators1''
     (choiceExpr 186
      [litMatcher 187 ''<='' False,
       litMatcher 188 ''<'' False,
       litMatcher 189 ''>='' False,
       litMatcher 190 ''>'' False,
       litMatcher 191 ''startswith'' True,
       litMatcher 192 ''in'' True,
       litMatcher 193 ''not empty'' True,
       litMatcher 194 ''empty'' True])\<close>

definition g_Relational :: expr where
  \<open>g_Relational =
     actionExpr 195 ''callonRelational1''
     (seqExpr 196
      [labeledExpr 197 ''head'' (ruleRefExpr 198 ''Additive''),
       labeledExpr 199 ''tail'' (zeroOrMoreExpr 200 (seqExpr 201
          [ruleRefExpr 202 ''__'',
           ruleRefExpr 203 ''RelationalOperators'',
           ruleRefExpr 204 ''__'',
           ruleRefExpr 205 ''Additive'']))])\<close>

definition g_AdditiveOperator :: expr where
  \<open>g_AdditiveOperator =
     actionExpr 206 ''callonAdditiveOperator1''
     (choiceExpr 207
      [litMatcher 208 ''+'' False,
       litMatcher 209 ''-'' False])\<close>

definition g_Additive :: expr where
  \<open>g_Additive =
     actionExpr 210 ''callonAdditive1''
     (seqExpr 211
      [labeledExpr 212 ''head'' (ruleRefExpr 213 ''Multiplicative''),
       labeledExpr 214 ''tail'' (zeroOrMoreExpr 215 (seqExpr 216
          [ruleRefExpr 217 ''__'',
           ruleRefExpr 218 ''AdditiveOperator'',
           ruleRefExpr 219 ''__'',
           ruleRefExpr 220 ''Multiplicative'']))])\<close>

definition g_MultiplicativeOperator :: expr where
  \<open>g_MultiplicativeOperator =
     actionExpr 221 ''callonMultiplicativeOperator1''
     (choiceExpr 222
      [litMatcher 223 ''*'' False,
       litMatcher 224 ''/'' False])\<close>

definition g_Multiplicative :: expr where
  \<open>g_Multiplicative =
     actionExpr 225 ''callonMultiplicative1''
     (seqExpr 226
      [labeledExpr 227 ''head'' (ruleRefExpr 228 ''Primary''),
       labeledExpr 229 ''tail'' (zeroOrMoreExpr 230 (seqExpr 231
          [ruleRefExpr 232 ''__'',
           ruleRefExpr 233 ''MultiplicativeOperator'',
           ruleRefExpr 234 ''__'',
           ruleRefExpr 235 ''Primary'']))])\<close>

definition g_Primary :: expr where
  \<open>g_Primary =
     choiceExpr 236
     [actionExpr 237 ''callonPrimary2''
       (seqExpr 238
        [litMatcher 239 ''('' False,
         ruleRefExpr 240 ''__'',
         labeledExpr 241 ''expr'' (ruleRefExpr 242 ''Logical''),
         ruleRefExpr 243 ''__'',
         litMatcher 244 '')'' False]),
      ruleRefExpr 245 ''StringLiteral'',
      ruleRefExpr 246 ''RegularExpressionLiteral'',
      ruleRefExpr 247 ''Duration'',
      ruleRefExpr 248 ''DateTime'',
      ruleRefExpr 249 ''Number'',
      ruleRefExpr 250 ''Field'',
      ruleRefExpr 251 ''String'']\<close>

definition g_DateFullYear :: expr where
  \<open>g_DateFullYear =
     seqExpr 252
     [ruleRefExpr 253 ''Digit'',
      ruleRefExpr 254 ''Digit'',
      ruleRefExpr 255 ''Digit'',
      ruleRefExpr 256 ''Digit'']\<close>

definition g_DateMonth :: expr where
  \<open>g_DateMonth =
     seqExpr 257
     [ruleRefExpr 258 ''Digit'',
      ruleRefExpr 259 ''Digit'']\<close>

definition g_DateMDay :: expr where
  \<open>g_DateMDay =
     seqExpr 260
     [ruleRefExpr 261 ''Digit'',
      ruleRefExpr 262 ''Digit'']\<close>

definition g_TimeHour :: expr where
  \<open>g_TimeHour =
     seqExpr 263
     [ruleRefExpr 264 ''Digit'',
      ruleRefExpr 265 ''Digit'']\<close>

definition g_TimeMinute :: expr where
  \<open>g_TimeMinute =
     seqExpr 266
     [ruleRefExpr 267 ''Digit'',
      ruleRefExpr 268 ''Digit'']\<close>

definition g_TimeSecond :: expr where
  \<open>g_TimeSecond =
     seqExpr 269
     [ruleRefExpr 270 ''Digit'',
      ruleRefExpr 271 ''Digit'']\<close>

definition g_TimeSecFrac :: expr where
  \<open>g_TimeSecFrac =
     seqExpr 272
     [litMatcher 273 ''.'' False,
      oneOrMoreExpr 274 (ruleRefExpr 275 ''Digit'')]\<close>

definition g_TimeNumOffset :: expr where
  \<open>g_TimeNumOffset =
     seqExpr 276
     [choiceExpr 277
       [litMatcher 278 ''+'' False,
        litMatcher 279 ''-'' False],
      ruleRefExpr 280 ''TimeHour'',
      litMatcher 281 '':'' False,
      ruleRefExpr 282 ''TimeMinute'']\<close>

definition g_TimeOffset :: expr where
  \<open>g_TimeOffset =
     choiceExpr 283
     [litMatcher 284 ''Z'' False,
      ruleRefExpr 285 ''TimeNumOffset'']\<close>

definition g_PartialTime :: expr where
  \<open>g_PartialTime =
     seqExpr 286
     [ruleRefExpr 287 ''TimeHour'',
      litMatcher 288 '':'' False,
      ruleRefExpr 289 ''TimeMinute'',
      litMatcher 290 '':'' False,
      ruleRefExpr 291 ''TimeSecond'',
      zeroOrOneExpr 292 (ruleRefExpr 293 ''TimeSecFrac'')]\<close>

definition g_FullDate :: expr where
  \<open>g_FullDate =
     seqExpr 294
     [ruleRefExpr 295 ''DateFullYear'',
      litMatcher 296 ''-'' False,
      ruleRefExpr 297 ''DateMonth'',
      litMatcher 298 ''-'' False,
      ruleRefExpr 299 ''DateMDay'']\<close>

definition g_FullTime :: expr where
  \<open>g_FullTime =
     seqExpr 300
     [ruleRefExpr 301 ''PartialTime'',
      ruleRefExpr 302 ''TimeOffset'']\<close>

definition g_DateTime :: expr where
  \<open>g_DateTime =
     actionExpr 303 ''callonDateTime1''
     (seqExpr 304
      [ruleRefExpr 305 ''FullDate'',
       litMatcher 306 ''T'' False,
       ruleRefExpr 307 ''FullTime''])\<close>

definition g_NanoSecondUnits :: expr where
  \<open>g_NanoSecondUnits =
     litMatcher 308 ''ns'' False\<close>

definition g_MicroSecondUnits :: expr where
  \<open>g_MicroSecondUnits =
     choiceExpr 309
     [litMatcher 310 ''us'' False,
      litMatcher 311 [CHR 0xC2, CHR 0xB5, CHR ''s''] False,
      litMatcher 312 [CHR 0xCE, CHR 0xBC, CHR ''s''] False]\<close>

definition g_MilliSecondUnits :: expr where
  \<open>g_MilliSecondUnits =
     litMatcher 313 ''ms'' False\<close>

definition g_SecondUnits :: expr where
  \<open>g_SecondUnits =
     litMatcher 314 ''s'' False\<close>

definition g_MinuteUnits :: expr where
  \<open>g_MinuteUnits =
     litMatcher 315 ''m'' False\<close>

definition g_HourUnits :: expr where
  \<open>g_HourUnits =
     litMatcher 316 ''h'' False\<close>

definition g_DurationUnits :: expr where
  \<open>g_DurationUnits =
     choiceExpr 317
     [ruleRefExpr 318 ''NanoSecondUnits'',
      ruleRefExpr 319 ''MicroSecondUnits'',
      ruleRefExpr 320 ''MilliSecondUnits'',
      ruleRefExpr 321 ''SecondUnits'',
      ruleRefExpr 322 ''MinuteUnits'',
      ruleRefExpr 323 ''HourUnits'']\<close>

definition g_SingleDuration :: expr where
  \<open>g_SingleDuration =
     seqExpr 324
     [ruleRefExpr 325 ''Number'',
      ruleRefExpr 326 ''DurationUnits'']\<close>

definition g_Duration :: expr where
  \<open>g_Duration =
     actionExpr 327 ''callonDuration1''
     (oneOrMoreExpr 328 (ruleRefExpr 329 ''SingleDuration''))\<close>

definition g_StringLiteral :: expr where
  \<open>g_StringLiteral =
     choiceExpr 330
     [actionExpr 331 ''callonStringLiteral2''
       (seqExpr 332
        [litMatcher 333 [CHR 0x22] False,
         zeroOrMoreExpr 334 (ruleRefExpr 335 ''DoubleStringChar''),
         litMatcher 336 [CHR 0x22] False]),
      actionExpr 337 ''callonStringLiteral8''
       (seqExpr 338
        [litMatcher 339 [CHR 0x22] False,
         zeroOrMoreExpr 340 (ruleRefExpr 341 ''DoubleStringChar''),
         choiceExpr 342
          [ruleRefExpr 343 ''EOL'',
           ruleRefExpr 344 ''EOF'']])]\<close>

definition g_DoubleStringChar :: expr where
  \<open>g_DoubleStringChar =
     choiceExpr 345
     [seqExpr 346
       [notExpr 347 (choiceExpr 348
          [litMatcher 349 [CHR 0x22] False,
           litMatcher 350 [CHR 0x5C] False,
           ruleRefExpr 351 ''EOL'']),
        ruleRefExpr 352 ''SourceChar''],
      seqExpr 353
       [litMatcher 354 [CHR 0x5C] False,
        ruleRefExpr 355 ''DoubleStringEscape'']]\<close>

definition g_DoubleStringEscape :: expr where
  \<open>g_DoubleStringEscape =
     choiceExpr 356
     [litMatcher 357 [CHR 0x22] False,
      actionExpr 358 ''callonDoubleStringEscape3''
       (choiceExpr 359
        [ruleRefExpr 360 ''SourceChar'',
         ruleRefExpr 361 ''EOL'',
         ruleRefExpr 362 ''EOF''])]\<close>

definition g_String :: expr where
  \<open>g_String =
     actionExpr 363 ''callonString1''
     (oneOrMoreExpr 364 (ruleRefExpr 365 ''StringChar''))\<close>

definition g_StringChar :: expr where
  \<open>g_StringChar =
     seqExpr 366
     [notExpr 367 (choiceExpr 368
        [litMatcher 369 [CHR 0x22] False,
         litMatcher 370 ''('' False,
         litMatcher 371 '')'' False,
         litMatcher 372 '':'' False,
         litMatcher 373 ''{'' False,
         litMatcher 374 ''}'' False,
         litMatcher 375 '','' False,
         litMatcher 376 ''$'' False,
         litMatcher 377 ''.'' False,
         ruleRefExpr 378 ''ws'']),
      ruleRefExpr 379 ''SourceChar'']\<close>

definition g_Number :: expr where
  \<open>g_Number =
     actionExpr 380 ''callonNumber1''
     (seqExpr 381
      [zeroOrOneExpr 382 (litMatcher 383 ''-'' False),
       ruleRefExpr 384 ''Integer'',
       zeroOrOneExpr 385 (seqExpr 386
         [litMatcher 387 ''.'' False,
          oneOrMoreExpr 388 (ruleRefExpr 389 ''Digit'')])])\<close>

definition g_Integer :: expr where
  \<open>g_Integer =
     choiceExpr 390
     [litMatcher 391 ''0'' False,
      seqExpr 392
       [ruleRefExpr 393 ''NonZeroDigit'',
        zeroOrMoreExpr 394 (ruleRefExpr 395 ''Digit'')]]\<close>

definition g_NonZeroDigit :: expr where
  \<open>g_NonZeroDigit =
     charClassMatcher 396 ''[1-9]'' [] [49, 57] False False\<close>

definition g_Digit :: expr where
  \<open>g_Digit =
     charClassMatcher 397 ''[0-9]'' [] [48, 57] False False\<close>

definition g_Field :: expr where
  \<open>g_Field =
     actionExpr 398 ''callonField1''
     (labeledExpr 399 ''field'' (litMatcher 400 ''$'' False))\<close>

definition g_RegularExpressionLiteral :: expr where
  \<open>g_RegularExpressionLiteral =
     actionExpr 401 ''callonRegularExpressionLiteral1''
     (seqExpr 402
      [litMatcher 403 ''/'' False,
       labeledExpr 404 ''pattern'' (ruleRefExpr 405 ''RegularExpressionBody''),
       litMatcher 406 ''/'' False])\<close>

definition g_RegularExpressionBody :: expr where
  \<open>g_RegularExpressionBody =
     actionExpr 407 ''callonRegularExpressionBody1''
     (labeledExpr 408 ''chars'' (oneOrMoreExpr 409 (ruleRefExpr 410 ''RegularExpressionChar'')))\<close>

definition g_RegularExpressionChar :: expr where
  \<open>g_RegularExpressionChar =
     choiceExpr 411
     [actionExpr 412 ''callonRegularExpressionChar2''
       (seqExpr 413
        [notExpr 414 (charClassMatcher 415 [CHR ''['', CHR 0x5C, CHR 0x5C, CHR ''/'', CHR '']''] [92, 47] [] False False),
         labeledExpr 416 ''re'' (ruleRefExpr 417 ''RegularExpressionNonTerminator'')]),
      ruleRefExpr 418 ''RegularExpressionBackslashSequence'']\<close>

definition g_RegularExpressionBackslashSequence :: expr where
  \<open>g_RegularExpressionBackslashSequence =
     choiceExpr 419
     [actionExpr 420 ''callonRegularExpressionBackslashSequence2''
       (litMatcher 421 [CHR 0x5C, CHR ''/''] False),
      seqExpr 422
       [litMatcher 423 [CHR 0x5C] False,
        ruleRefExpr 424 ''RegularExpressionNonTerminator'']]\<close>

definition g_RegularExpressionNonTerminator :: expr where
  \<open>g_RegularExpressionNonTerminator =
     actionExpr 425 ''callonRegularExpressionNonTerminator1''
     (seqExpr 426
      [notExpr 427 (ruleRefExpr 428 ''LineTerminator''),
       ruleRefExpr 429 ''SourceChar''])\<close>

definition g_SourceChar :: expr where
  \<open>g_SourceChar =
     anyMatcher 430\<close>

definition g_underscores :: expr where
  \<open>g_underscores =
     zeroOrMoreExpr 431 (choiceExpr 432
      [ruleRefExpr 433 ''ws'',
       ruleRefExpr 434 ''EOL''])\<close>

definition g_ws :: expr where
  \<open>g_ws =
     charClassMatcher 435 [CHR ''['', CHR '' '', CHR 0x5C, CHR ''t'', CHR 0x5C, CHR ''r'', CHR 0x5C, CHR ''n'', CHR '']''] [32, 9, 13, 10] [] False False\<close>

definition g_LineTerminator :: expr where
  \<open>g_LineTerminator =
     charClassMatcher 436 [CHR ''['', CHR 0x5C, CHR ''n'', CHR 0x5C, CHR ''r'', CHR '']''] [10, 13] [] False False\<close>

definition g_EOL :: expr where
  \<open>g_EOL =
     litMatcher 437 [CHR 0x0A] False\<close>

definition g_EOF :: expr where
  \<open>g_EOF =
     notExpr 438 (anyMatcher 439)\<close>

definition g :: "rule list" where
  \<open>g =
    [\<lparr>name = ''Start'', displayName = '''', expr = g_Start\<rparr>,
     \<lparr>name = ''Program'', displayName = '''', expr = g_Program\<rparr>,
     \<lparr>name = ''SourceElements'', displayName = '''', expr = g_SourceElements\<rparr>,
     \<lparr>name = ''SourceElement'', displayName = '''', expr = g_SourceElement\<rparr>,
     \<lparr>name = ''Statement'', displayName = '''', expr = g_Statement\<rparr>,
     \<lparr>name = ''VariableStatement'', displayName = '''', expr = g_VariableStatement\<rparr>,
     \<lparr>name = ''VariableDeclarationList'', displayName = '''', expr = g_VariableDeclarationList\<rparr>,
     \<lparr>name = ''VarToken'', displayName = '''', expr = g_VarToken\<rparr>,
     \<lparr>name = ''VariableDeclaration'', displayName = '''', expr = g_VariableDeclaration\<rparr>,
     \<lparr>name = ''Initializer'', displayName = '''', expr = g_Initializer\<rparr>,
     \<lparr>name = ''VariableExpression'', displayName = '''', expr = g_VariableExpression\<rparr>,
     \<lparr>name = ''ExpressionStatement'', displayName = '''', expr = g_ExpressionStatement\<rparr>,
     \<lparr>name = ''MemberExpression'', displayName = '''', expr = g_MemberExpression\<rparr>,
     \<lparr>name = ''CallExpression'', displayName = '''', expr = g_CallExpression\<rparr>,
     \<lparr>name = ''Arguments'', displayName = '''', expr = g_Arguments\<rparr>,
     \<lparr>name = ''FunctionArgs'', displayName = '''', expr = g_FunctionArgs\<rparr>,
     \<lparr>name = ''FunctionArgsRest'', displayName = '''', expr = g_FunctionArgsRest\<rparr>,
     \<lparr>name = ''FunctionArg'', displayName = '''', expr = g_FunctionArg\<rparr>,
     \<lparr>name = ''FunctionArgValues'', displayName = '''', expr = g_FunctionArgValues\<rparr>,
     \<lparr>name = ''WhereExpr'', displayName = '''', expr = g_WhereExpr\<rparr>,
     \<lparr>name = ''Expr'', displayName = '''', expr = g_Expr\<rparr>,
     \<lparr>name = ''LogicalOperators'', displayName = '''', expr = g_LogicalOperators\<rparr>,
     \<lparr>name = ''Logical'', displayName = '''', expr = g_Logical\<rparr>,
     \<lparr>name = ''EqualityOperators'', displayName = '''', expr = g_EqualityOperators\<rparr>,
     \<lparr>name = ''Equality'', displayName = '''', expr = g_Equality\<rparr>,
     \<lparr>name = ''RelationalOperators'', displayName = '''', expr = g_RelationalOperators\<rparr>,
     \<lparr>name = ''Relational'', displayName = '''', expr = g_Relational\<rparr>,
     \<lparr>name = ''AdditiveOperator'', displayName = '''', expr = g_AdditiveOperator\<rparr>,
     \<lparr>name = ''Additive'', displayName = '''', expr = g_Additive\<rparr>,
     \<lparr>name = ''MultiplicativeOperator'', displayName = '''', expr = g_MultiplicativeOperator\<rparr>,
     \<lparr>name = ''Multiplicative'', displayName = '''', expr = g_Multiplicative\<rparr>,
     \<lparr>name = ''Primary'', displayName = '''', expr = g_Primary\<rparr>,
     \<lparr>name = ''DateFullYear'', displayName = '''', expr = g_DateFullYear\<rparr>,
     \<lparr>name = ''DateMonth'', displayName = '''', expr = g_DateMonth\<rparr>,
     \<lparr>name = ''DateMDay'', displayName = '''', expr = g_DateMDay\<rparr>,
     \<lparr>name = ''TimeHour'', displayName = '''', expr = g_TimeHour\<rparr>,
     \<lparr>name = ''TimeMinute'', displayName = '''', expr = g_TimeMinute\<rparr>,
     \<lparr>name = ''TimeSecond'', displayName = '''', expr = g_TimeSecond\<rparr>,
     \<lparr>name = ''TimeSecFrac'', displayName = '''', expr = g_TimeSecFrac\<rparr>,
     \<lparr>name = ''TimeNumOffset'', displayName = '''', expr = g_TimeNumOffset\<rparr>,
     \<lparr>name = ''TimeOffset'', displayName = '''', expr = g_TimeOffset\<rparr>,
     \<lparr>name = ''PartialTime'', displayName = '''', expr = g_PartialTime\<rparr>,
     \<lparr>name = ''FullDate'', displayName = '''', expr = g_FullDate\<rparr>,
     \<lparr>name = ''FullTime'', displayName = '''', expr = g_FullTime\<rparr>,
     \<lparr>name = ''DateTime'', displayName = '''', expr = g_DateTime\<rparr>,
     \<lparr>name = ''NanoSecondUnits'', displayName = '''', expr = g_NanoSecondUnits\<rparr>,
     \<lparr>name = ''MicroSecondUnits'', displayName = '''', expr = g_MicroSecondUnits\<rparr>,
     \<lparr>name = ''MilliSecondUnits'', displayName = '''', expr = g_MilliSecondUnits\<rparr>,
     \<lparr>name = ''SecondUnits'', displayName = '''', expr = g_SecondUnits\<rparr>,
     \<lparr>name = ''MinuteUnits'', displayName = '''', expr = g_MinuteUnits\<rparr>,
     \<lparr>name = ''HourUnits'', displayName = '''', expr = g_HourUnits\<rparr>,
     \<lparr>name = ''DurationUnits'', displayName = '''', expr = g_DurationUnits\<rparr>,
     \<lparr>name = ''SingleDuration'', displayName = '''', expr = g_SingleDuration\<rparr>,
     \<lparr>name = ''Duration'', displayName = '''', expr = g_Duration\<rparr>,
     \<lparr>name = ''StringLiteral'', displayName = '''', expr = g_StringLiteral\<rparr>,
     \<lparr>name = ''DoubleStringChar'', displayName = '''', expr = g_DoubleStringChar\<rparr>,
     \<lparr>name = ''DoubleStringEscape'', displayName = '''', expr = g_DoubleStringEscape\<rparr>,
     \<lparr>name = ''String'', displayName = '''', expr = g_String\<rparr>,
     \<lparr>name = ''StringChar'', displayName = '''', expr = g_StringChar\<rparr>,
     \<lparr>name = ''Number'', displayName = '''', expr = g_Number\<rparr>,
     \<lparr>name = ''Integer'', displayName = '''', expr = g_Integer\<rparr>,
     \<lparr>name = ''NonZeroDigit'', displayName = '''', expr = g_NonZeroDigit\<rparr>,
     \<lparr>name = ''Digit'', displayName = '''', expr = g_Digit\<rparr>,
     \<lparr>name = ''Field'', displayName = '''', expr = g_Field\<rparr>,
     \<lparr>name = ''RegularExpressionLiteral'', displayName = CHR 0x22 # ''regular expression'' @ [CHR 0x22], expr = g_RegularExpressionLiteral\<rparr>,
     \<lparr>name = ''RegularExpressionBody'', displayName = '''', expr = g_RegularExpressionBody\<rparr>,
     \<lparr>name = ''RegularExpressionChar'', displayName = '''', expr = g_RegularExpressionChar\<rparr>,
     \<lparr>name = ''RegularExpressionBackslashSequence'', displayName = '''', expr = g_RegularExpressionBackslashSequence\<rparr>,
     \<lparr>name = ''RegularExpressionNonTerminator'', displayName = '''', expr = g_RegularExpressionNonTerminator\<rparr>,
     \<lparr>name = ''SourceChar'', displayName = '''', expr = g_SourceChar\<rparr>,
     \<lparr>name = ''__'', displayName = '''', expr = g_underscores\<rparr>,
     \<lparr>name = ''ws'', displayName = '''', expr = g_ws\<rparr>,
     \<lparr>name = ''LineTerminator'', displayName = '''', expr = g_LineTerminator\<rparr>,
     \<lparr>name = ''EOL'', displayName = '''', expr = g_EOL\<rparr>,
     \<lparr>name = ''EOF'', displayName = '''', expr = g_EOF\<rparr>]\<close>

subsection \<open>Auxiliary notions for the parser proofs\<close>

definition pt_ok :: "string \<Rightarrow> savepoint \<Rightarrow> bool" where
  "pt_ok d sp \<longleftrightarrow> offset sp + w sp \<le> length d \<and> (rn sp \<noteq> RuneError \<longrightarrow> 0 < w sp)"

definition wf_state :: "('v, 'e) env \<Rightarrow> ('v, 'e) parser \<Rightarrow> bool" where
  "wf_state E p \<longleftrightarrow>
     pt_ok (data E) (pt p) \<and> \<not> memoize p \<and> offset (maxFailPos p) \<le> length (data E) \<and>
     list_all (\<lambda>e. offset (epos e) \<le> length (data E)) (errs p)"

fun nul :: "string list \<Rightarrow> expr \<Rightarrow> bool" where
  "nul N (actionExpr i run e) = nul N e"
| "nul N (andExpr i e) = True"
| "nul N (notExpr i e) = True"
| "nul N (zeroOrOneExpr i e) = True"
| "nul N (zeroOrMoreExpr i e) = True"
| "nul N (oneOrMoreExpr i e) = nul N e"
| "nul N (choiceExpr i es) = list_ex (nul N) es"
| "nul N (seqExpr i es) = list_all (nul N) es"
| "nul N (labeledExpr i l e) = nul N e"
| "nul N (ruleRefExpr i nm) = (nm \<in> set N)"
| "nul N (litMatcher i s ic) = (ic \<or> runes s = [] \<or> RuneError \<in> set (runes s))"
| "nul N (charClassMatcher i val chars ranges ic inverted) = False"
| "nul N (anyMatcher i) = False"

fun nul_task :: "string list \<Rightarrow> 'v task \<Rightarrow> bool" where
  "nul_task N (Expr e) = nul N e"
| "nul_task N (ZeroOrMoreLoop e vals) = True"
| "nul_task N (OneOrMoreLoop e vals) = (vals \<noteq> [] \<or> nul N e)"

definition post ::
  "('v, 'e) env \<Rightarrow> bool \<Rightarrow> ('v, 'e) parser \<Rightarrow> bool \<Rightarrow> ('v, 'e) outcome \<Rightarrow> bool" where
  "post E ov p nl out =
     (case out of
        Done v ok p' \<Rightarrow>
          wf_state E p' \<and> offset (pt p) \<le> offset (pt p') \<and> (ok \<and> offset (pt p') = offset (pt p) \<longrightarrow> nl)
      | Panicked x p' \<Rightarrow> wf_state E p' \<and> (x = stack_overflow \<longrightarrow> ov))"

definition le_call ::
  "('v task \<Rightarrow> ('v, 'e) parser \<Rightarrow> ('v, 'e) outcome option) \<Rightarrow>
   ('v task \<Rightarrow> ('v, 'e) parser \<Rightarrow> ('v, 'e) outcome option) \<Rightarrow> bool" where
  "le_call self self' \<longleftrightarrow> (\<forall>t p out. self t p = Some out \<longrightarrow> self' t p = Some out)"

fun wf_expr :: "string list \<Rightarrow> (string \<Rightarrow> nat) \<Rightarrow> nat \<Rightarrow> nat \<Rightarrow> expr \<Rightarrow> bool"
  and wf_alts :: "string list \<Rightarrow> (string \<Rightarrow> nat) \<Rightarrow> nat \<Rightarrow> nat \<Rightarrow> expr list \<Rightarrow> bool"
  and wf_seq :: "string list \<Rightarrow> (string \<Rightarrow> nat) \<Rightarrow> nat \<Rightarrow> nat \<Rightarrow> expr list \<Rightarrow> bool" where
  "wf_expr N rk K k (actionExpr i run e) = wf_expr N rk K k e"
| "wf_expr N rk K k (andExpr i e) = wf_expr N rk K k e"
| "wf_expr N rk K k (notExpr i e) = wf_expr N rk K k e"
| "wf_expr N rk K k (zeroOrOneExpr i e) = wf_expr N rk K k e"
| "wf_expr N rk K k (zeroOrMoreExpr i e) = (\<not> nul N e \<and> wf_expr N rk K k e)"
| "wf_expr N rk K k (oneOrMoreExpr i e) = (\<not> nul N e \<and> wf_expr N rk K k e)"
| "wf_expr N rk K k (choiceExpr i es) = wf_alts N rk K k es"
| "wf_expr N rk K k (seqExpr i es) = wf_seq N rk K k es"
| "wf_expr N rk K k (labeledExpr i l e) = wf_expr N rk K k e"
| "wf_expr N rk K k (ruleRefExpr i nm) = (rk nm < k)"
| "wf_expr N rk K k (litMatcher i s ic) = True"
| "wf_expr N rk K k (charClassMatcher i val chars ranges ic inverted) = True"
| "wf_expr N rk K k (anyMatcher i) = True"
| "wf_alts N rk K k [] = True"
| "wf_alts N rk K k (e # es) = (wf_expr N rk K k e \<and> wf_alts N rk K k es)"
| "wf_seq N rk K k [] = True"
| "wf_seq N rk K k (e # es) = (wf_expr N rk K k e \<and> wf_seq N rk K (if nul N e then k else K) es)"

fun wf_task :: "string list \<Rightarrow> (string \<Rightarrow> nat) \<Rightarrow> nat \<Rightarrow> nat \<Rightarrow> 'v task \<Rightarrow> bool" where
  "wf_task N rk K k (Expr e) = wf_expr N rk K k e"
| "wf_task N rk K k (ZeroOrMoreLoop e vals) = (\<not> nul N e \<and> wf_expr N rk K k e)"
| "wf_task N rk K k (OneOrMoreLoop e vals) = (\<not> nul N e \<and> wf_expr N rk K k e)"

fun tsize :: "'v task \<Rightarrow> nat" where
  "tsize (Expr e) = size e"
| "tsize (ZeroOrMoreLoop e vals) = Suc (size e)"
| "tsize (OneOrMoreLoop e vals) = Suc (size e)"

definition rules_ok :: "('v, 'e) env \<Rightarrow> string list \<Rightarrow> (string \<Rightarrow> nat) \<Rightarrow> nat \<Rightarrow> bool" where
  "rules_ok E N rk K \<longleftrightarrow>
     (\<forall>nm r. rules E nm = Some r \<longrightarrow> wf_expr N rk K (rk nm) (expr r) \<and> (nul N (expr r) \<longrightarrow> nm \<in> set N))"

definition evals ::
  "('v, 'e) env \<Rightarrow> string list \<Rightarrow> enat \<Rightarrow> 'v task \<Rightarrow> ('v, 'e) parser \<Rightarrow> bool" where
  "evals E N c t p \<longleftrightarrow>
     (\<exists>k out. nested c (exec E k) t p = Some out \<and> post E (c \<noteq> \<infinity>) p (nul_task N t) out)"

definition evals_body ::
  "('v, 'e) env \<Rightarrow> string list \<Rightarrow> enat \<Rightarrow> expr \<Rightarrow> ('v, 'e) parser \<Rightarrow> bool" where
  "evals_body E N c e p \<longleftrightarrow>
     (\<exists>k out. parseExpr_switch E (nested c (exec E k)) e p = Some out \<and>
        post E (c \<noteq> \<infinity>) p (nul N e) out)"

definition seq_post ::
  "('v, 'e) env \<Rightarrow> bool \<Rightarrow> string list \<Rightarrow> nat \<Rightarrow> ('v, 'e) parser \<Rightarrow> expr list \<Rightarrow> ('v, 'e) outcome \<Rightarrow> bool" where
  "seq_post E ov N off0 p es out =
     (case out of
        Done v b p' \<Rightarrow>
          wf_state E p' \<and> off0 \<le> offset (pt p') \<and> (b \<longrightarrow> offset (pt p) \<le> offset (pt p')) \<and>
          (b \<and> offset (pt p') = off0 \<longrightarrow> list_all (nul N) es)
      | Panicked x p' \<Rightarrow> wf_state E p' \<and> (x = stack_overflow \<longrightarrow> ov))"

definition nullable_rules :: "string list" where
  "nullable_rules =
     [''LogicalOperators'', ''RelationalOperators'', ''DoubleStringEscape'', ''__'', ''EOF'']"

definition rank_table :: "(string \<times> nat) list" where
  "rank_table =
     [(''Start'', 10), (''Program'', 9), (''SourceElements'', 8), (''SourceElement'', 7), 
      (''Statement'', 6), (''VariableStatement'', 1), (''VariableDeclarationList'', 4), 
      (''VariableDeclaration'', 3), (''VariableExpression'', 5), (''ExpressionStatement'', 5), 
      (''MemberExpression'', 3), (''CallExpression'', 4), (''FunctionArgs'', 4), 
      (''FunctionArg'', 3), (''FunctionArgValues'', 5), (''Expr'', 11), (''Logical'', 10), 
      (''Equality'', 9), (''Relational'', 8), (''Additive'', 7), (''Multiplicative'', 6), 
      (''Primary'', 5), (''DateFullYear'', 1), (''DateMonth'', 1), (''DateMDay'', 1), 
      (''TimeHour'', 1), (''TimeMinute'', 1), (''TimeSecond'', 1), (''TimeOffset'', 1), 
      (''PartialTime'', 2), (''FullDate'', 2), (''FullTime'', 3), (''DateTime'', 3), 
      (''DurationUnits'', 1), (''SingleDuration'', 3), (''Duration'', 4), 
      (''DoubleStringChar'', 1), (''DoubleStringEscape'', 1), (''String'', 2), 
      (''StringChar'', 1), (''Number'', 2), (''Integer'', 1), (''RegularExpressionBody'', 3), 
      (''RegularExpressionChar'', 2), (''RegularExpressionNonTerminator'', 1), (''__'', 1)]"

definition rank :: "string \<Rightarrow> nat" where
  "rank nm = (case map_of rank_table nm of Some k \<Rightarrow> k | None \<Rightarrow> 0)"

definition rank_bound :: nat where
  "rank_bound = 12"

definition rule_ok :: "rule \<Rightarrow> bool" where
  "rule_ok r \<longleftrightarrow> wf_expr nullable_rules rank rank_bound (rank (name r)) (expr r) \<and>
     (nul nullable_rules (expr r) \<longrightarrow> name r \<in> set nullable_rules)"

text \<open>The call \<^verbatim>\<open>val, ok := p.parseRule(g.rules[0])\<close> of \<open>parse\<close>: what the start rule matches.\<close>

definition parse_start ::
  "enat \<Rightarrow> nat \<Rightarrow> ('v, 'e) env \<Rightarrow> ('v, 'e) parser \<Rightarrow> rule list \<Rightarrow> ('v, 'e) outcome option" where
  "parse_start d fuel E p gr =
     (case gr of
        [] \<Rightarrow> None
      | r0 # _ \<Rightarrow>
          (let E1 = E\<lparr>rules := buildRulesTable gr\<rparr>
           in parseRule (nested d (exec E1 fuel)) r0 (read E1 p)))"

text \<open>
  \<^verbatim>\<open>func Parse(filename string, b []byte, opts ...Option) (interface{}, error)\<close>. The
  functions \<open>unicode.ToLower\<close> and the code of the actions are arguments, \<open>d\<close> is the
  room on the stack.
\<close>

definition Parse ::
  "enat \<Rightarrow> nat \<Rightarrow> string \<Rightarrow> string \<Rightarrow> Option list \<Rightarrow> (rune \<Rightarrow> rune) \<Rightarrow>
   (string \<Rightarrow> (string \<times> 'v val) list \<Rightarrow> position \<Rightarrow> string \<Rightarrow> ('v, 'e) act_result) \<Rightarrow>
   ('v, 'e) result option" where
  "Parse d fuel fname b opts lower act =
     parse d fuel \<lparr>filename = fname, data = b, rules = Map.empty, toLower = lower, action = act\<rparr>
       (newParser opts) g"

definition Parse_start ::
  "enat \<Rightarrow> nat \<Rightarrow> string \<Rightarrow> string \<Rightarrow> Option list \<Rightarrow> (rune \<Rightarrow> rune) \<Rightarrow>
   (string \<Rightarrow> (string \<times> 'v val) list \<Rightarrow> position \<Rightarrow> string \<Rightarrow> ('v, 'e) act_result) \<Rightarrow>
   ('v, 'e) outcome option" where
  "Parse_start d fuel fname b opts lower act =
     parse_start d fuel \<lparr>filename = fname, data = b, rules = Map.empty, toLower = lower, action = act\<rparr>
       (newParser opts) g"

text \<open>What \<open>parse\<close> makes of the outcome of the start rule.\<close>

definition reported ::
  "string \<Rightarrow> bool \<Rightarrow> ('v, 'e) outcome \<Rightarrow> ('v, 'e) result \<Rightarrow> bool" where
  "reported b bounded out r =
     (case out of
        Done val ok p1 \<Rightarrow>
          (\<exists>es. r = Result (if ok then val else VNil) es \<and>
                (ok \<longrightarrow> es = err (errs p1)) \<and> (\<not> ok \<longrightarrow> es \<noteq> []) \<and>
                list_all (\<lambda>e. offset (epos e) \<le> length b) es)
      | Panicked x p1 \<Rightarrow>
          if x = stack_overflow then bounded \<and> r = Crash stack_overflow
          else (\<exists>es. r = Result VNil es \<and> (\<exists>e \<in> set es. Inner e = recovered_panic x) \<and>
                 list_all (\<lambda>e. offset (epos e) \<le> length b) es))"

text \<open>Action code that returns nil and no error, whatever it is given.\<close>

definition act0 :: "string \<Rightarrow> (string \<times> unit val) list \<Rightarrow> position \<Rightarrow> string \<Rightarrow> (unit, unit) act_result" where
  "act0 run frame pos txt = Returns VNil None"

text \<open>The environment of \<open>Parse\<close> on the input \<open>x\<close>, with the rules of \<open>g\<close>.\<close>

definition env_x :: "(unit, unit) env" where
  "env_x = \<lparr>filename = ''q.ifql'', data = ''x'', rules = buildRulesTable g, toLower = id, action = act0\<rparr>"

text \<open>The error \<open>no match found\<close> at the end of the input \<open>x\<close>, with the expected tokens \<open>ex\<close>.\<close>

definition error_x :: "string list \<Rightarrow> unit parserError" where
  "error_x ex = \<lparr>Inner = no_match_found ex, epos = \<lparr>line = 1, col = 2, offset = 1\<rparr>,
     erule = None, expected = ex\<rparr>"


section \<open>Properties of the stddev aggregator\<close>

lemma pow2_powr: "pow2 e = 2 powr (of_int e)"
  by (simp add: pow2_def powr_real_of_int field_simps)

lemma pow2_pos [simp]: "0 < pow2 e"
  by (simp add: pow2_powr)

lemma pow2_nz [simp]: "pow2 e \<noteq> 0"
  by (simp add: pow2_powr)

lemma pow2_add: "pow2 (a + b) = pow2 a * pow2 b"
  by (simp add: pow2_powr powr_add)

lemma pow2_mono: "a \<le> b \<Longrightarrow> pow2 a \<le> pow2 b"
  by (simp add: pow2_powr)

lemma pow2_nat: "pow2 (int k) = 2 ^ k"
  by (simp add: pow2_def)

lemma floor_log2_bounds:
  assumes "0 < x"
  shows "pow2 \<lfloor>log 2 x\<rfloor> \<le> x" "x < pow2 (\<lfloor>log 2 x\<rfloor> + 1)"
proof -
  have "of_int \<lfloor>log 2 x\<rfloor> \<le> log 2 x" by simp
  then have "2 powr (of_int \<lfloor>log 2 x\<rfloor>) \<le> 2 powr (log 2 x)" by simp
  with assms show "pow2 \<lfloor>log 2 x\<rfloor> \<le> x" by (simp add: pow2_powr)
  have "log 2 x < of_int (\<lfloor>log 2 x\<rfloor> + 1)" by linarith
  then have "2 powr (log 2 x) < 2 powr (of_int (\<lfloor>log 2 x\<rfloor> + 1))" by simp
  with assms show "x < pow2 (\<lfloor>log 2 x\<rfloor> + 1)" by (simp add: pow2_powr)
qed

lemma floor_log2_eq:
  assumes "pow2 e \<le> x" "x < pow2 (e + 1)"
  shows "\<lfloor>log 2 x\<rfloor> = e"
proof -
  have x: "0 < x" using assms(1) pow2_pos [of e] by linarith
  have "of_int e \<le> log 2 x" using assms(1) x by (simp add: pow2_powr le_log_iff)
  moreover have "log 2 x < of_int e + 1" using assms(2) x by (simp add: pow2_powr log_less_iff)
  ultimately show ?thesis by linarith
qed

lemma round_even_int [simp]: "round_even (of_int z) = z"
  by (simp add: round_even_def)

lemma round_even_error: "\<bar>of_int (round_even x) - x\<bar> \<le> 1 / 2"
  unfolding round_even_def Let_def by (auto simp: abs_real_def) linarith+

lemma round64_exact:
  assumes "x = of_int z * pow2 (expo x - 52)" "\<bar>x\<bar> < 2 ^ 1024"
  shows "round64 x = Fin x"
proof (cases "x = 0")
  case True
  then show ?thesis by (simp add: round64_def)
next
  case False
  let ?q = "pow2 (expo x - 52)"
  have q0: "?q \<noteq> 0" by simp
  have "x / ?q = of_int z" by (subst nonzero_divide_eq_eq [OF q0]) (rule assms(1))
  then have "of_int (round_even (x / ?q)) * ?q = of_int z * ?q" by simp
  also have "\<dots> = x" by (rule assms(1) [symmetric])
  finally have "of_int (round_even (x / ?q)) * ?q = x" .
  with assms(2) False show ?thesis by (simp add: round64_def Let_def)
qed

lemma expo_le:
  assumes "x \<noteq> 0" "\<bar>x\<bar> < pow2 (e + 1)" "- 1022 \<le> e"
  shows "expo x \<le> e"
proof -
  have "pow2 \<lfloor>log 2 \<bar>x\<bar>\<rfloor> \<le> \<bar>x\<bar>" using assms(1) by (intro floor_log2_bounds) simp
  with assms(2) have "pow2 \<lfloor>log 2 \<bar>x\<bar>\<rfloor> < pow2 (e + 1)" by linarith
  then have "\<lfloor>log 2 \<bar>x\<bar>\<rfloor> < e + 1" by (simp add: pow2_powr)
  with assms(3) show ?thesis by (simp add: expo_def)
qed

lemma expo_eq:
  assumes "pow2 e \<le> \<bar>x\<bar>" "\<bar>x\<bar> < pow2 (e + 1)"
  shows "expo x = max e (- 1022)"
  using floor_log2_eq [OF assms] by (simp add: expo_def)

lemma round64_dyadic:
  assumes x: "x = of_int k * pow2 j" and j: "expo x - 52 \<le> j" and b: "\<bar>x\<bar> < 2 ^ 1024"
  shows "round64 x = Fin x"
proof (rule round64_exact [OF _ b])
  let ?i = "j - (expo x - 52)"
  have "pow2 j = pow2 ?i * pow2 (expo x - 52)" by (simp add: pow2_add [symmetric])
  moreover have "pow2 ?i = of_int (2 ^ nat ?i)" using j by (simp add: pow2_def)
  ultimately have "x = of_int (k * 2 ^ nat ?i) * pow2 (expo x - 52)" using x by simp
  then show "x = of_int (k * 2 ^ nat ?i) * pow2 (expo x - 52)" .
qed

lemma real_less_pow53: "m < 2 ^ 53 \<Longrightarrow> real m < 2 ^ 53"
proof -
  assume "m < 2 ^ 53"
  then have "real m < real (2 ^ 53)" by (simp only: of_nat_less_iff)
  then show ?thesis by simp
qed

lemma round64_nat:
  assumes "m \<le> 2 ^ 53"
  shows "round64 (real m) = Fin (real m)"
proof (cases "m < 2 ^ 53")
  case True
  note lt = real_less_pow53 [OF True]
  show ?thesis
  proof (cases "m = 0")
    case True
    then show ?thesis by (simp add: round64_def)
  next
    case False
    have "\<bar>real m\<bar> < pow2 (52 + 1)" using lt by (simp add: pow2_def)
    then have f1: "expo (real m) \<le> 52" using False by (intro expo_le) simp_all
    have f2: "real m = of_int (int m) * pow2 0" by (simp add: pow2_def)
    have "(2 :: real) ^ 53 < 2 ^ 1024" by simp
    with lt have f3: "\<bar>real m\<bar> < 2 ^ 1024" by simp
    from f1 have f1': "expo (real m) - 52 \<le> 0" by simp
    show ?thesis by (rule round64_dyadic [OF f2 f1' f3])
  qed
next
  case False
  with assms have m: "m = 2 ^ 53" by simp
  have "\<bar>real m\<bar> < pow2 (53 + 1)" using m by (simp add: pow2_def)
  then have f1: "expo (real m) \<le> 53" using m by (intro expo_le) simp_all
  have f2: "real m = of_int (2 ^ 52) * pow2 1" using m by (simp add: pow2_def)
  have f3: "\<bar>real m\<bar> < 2 ^ 1024" using m by simp
  from f1 have f1': "expo (real m) - 52 \<le> 1" by simp
  show ?thesis by (rule round64_dyadic [OF f2 f1' f3])
qed

lemma round64_tie: "round64 (2 ^ 53 + 1) = Fin (2 ^ 53)"
proof -
  define x :: real where "x = 2 ^ 53 + 1"
  have "expo x = max 53 (- 1022)"
    by (rule expo_eq) (simp_all add: pow2_def x_def)
  then have e: "expo x = 53" by simp
  have "x / 2 = of_int (2 ^ 52) + 1 / 2" by (simp add: x_def)
  then have f: "\<lfloor>x / 2\<rfloor> = 2 ^ 52" and g: "x / 2 - of_int (2 ^ 52) = 1 / 2" by simp_all
  have r: "round_even (x / 2) = 2 ^ 52"
    unfolding round_even_def Let_def f g by simp
  have q: "pow2 (expo x - 52) = 2" by (simp add: e pow2_def)
  have x0: "x \<noteq> 0" by (simp add: x_def)
  have "round64 x = Fin (2 ^ 53)"
    unfolding round64_def Let_def q r using x0 by simp
  then show ?thesis by (simp add: x_def)
qed

lemma round64_half:
  assumes "\<bar>k\<bar> < 2 ^ 53"
  shows "round64 (of_int k / 2) = Fin (of_int k / 2)"
proof (cases "k = 0")
  case True
  then show ?thesis by (simp add: round64_def)
next
  case False
  let ?x = "real_of_int k / 2"
  from assms have "real_of_int \<bar>k\<bar> < real_of_int (2 ^ 53)" by (simp only: of_int_less_iff)
  then have a: "\<bar>?x\<bar> < 2 ^ 52" by simp
  then have "\<bar>?x\<bar> < pow2 (51 + 1)" by (simp add: pow2_def)
  then have f1: "expo ?x \<le> 51" using False by (intro expo_le) simp_all
  have f2: "?x = of_int k * pow2 (- 1)" by (simp add: pow2_def)
  have "(2 :: real) ^ 52 < 2 ^ 1024" by simp
  with a have f3: "\<bar>?x\<bar> < 2 ^ 1024" by linarith
  from f1 have f1': "expo ?x - 52 \<le> - 1" by simp
  show ?thesis by (rule round64_dyadic [OF f2 f1' f3])
qed

lemma round_even_ge: "of_int z \<le> x \<Longrightarrow> z \<le> round_even x"
  unfolding round_even_def Let_def by (auto simp: le_floor_iff) linarith+

lemma round_even_le: "x \<le> of_int z \<Longrightarrow> round_even x \<le> z"
proof -
  assume a: "x \<le> of_int z"
  have f: "\<lfloor>x\<rfloor> \<le> z" using a by (simp add: floor_le_iff)
  show ?thesis
  proof (cases "x = of_int \<lfloor>x\<rfloor>")
    case True
    then have "round_even x = \<lfloor>x\<rfloor>" by (metis round_even_int)
    with f show ?thesis by simp
  next
    case False
    then have "of_int \<lfloor>x\<rfloor> < x" by (metis of_int_floor_le order_less_le)
    with a have "\<lfloor>x\<rfloor> < z" by linarith
    then show ?thesis unfolding round_even_def Let_def by auto
  qed
qed

lemma round64_near:
  assumes "1 \<le> x" "x < 2"
  shows "\<exists>y. round64 x = Fin y \<and> \<bar>y - x\<bar> \<le> 1 / 2 ^ 53 \<and> 1 \<le> y \<and> y \<le> 2"
proof -
  have "expo x = max 0 (- 1022)" using assms by (intro expo_eq) (simp_all add: pow2_def)
  then have e: "expo x = 0" by simp
  let ?t = "x * 2 ^ 52"
  let ?y = "of_int (round_even ?t) / (2 :: real) ^ 52"
  have q: "x / pow2 (expo x - 52) = ?t" by (simp add: e pow2_def)
  have y: "of_int (round_even (x / pow2 (expo x - 52))) * pow2 (expo x - 52) = ?y"
    unfolding q by (simp add: e pow2_def)
  have "(2 :: int) ^ 52 \<le> round_even ?t" using assms(1) by (intro round_even_ge) simp
  then have "(2 :: real) ^ 52 \<le> of_int (round_even ?t)"
    by (metis of_int_le_iff of_int_numeral of_int_power)
  then have lo: "1 \<le> ?y" by (simp add: field_simps)
  have "round_even ?t \<le> 2 ^ 53" using assms(2) by (intro round_even_le) simp
  then have "of_int (round_even ?t) \<le> (2 :: real) ^ 53"
    by (metis of_int_le_iff of_int_numeral of_int_power)
  then have hi: "?y \<le> 2" by (simp add: field_simps)
  have "\<bar>of_int (round_even ?t) - ?t\<bar> \<le> 1 / 2" by (rule round_even_error)
  then have "\<bar>(of_int (round_even ?t) - ?t) / 2 ^ 52\<bar> \<le> (1 / 2) / 2 ^ 52"
    by (simp only: abs_divide) (simp add: divide_right_mono)
  then have er: "\<bar>?y - x\<bar> \<le> 1 / 2 ^ 53" by (simp add: diff_divide_distrib)
  have "\<bar>?y\<bar> < 2 ^ 1024" using lo hi by (simp add: abs_real_def) 
  then have "round64 x = Fin ?y" using assms(1) unfolding round64_def Let_def y by simp
  with er lo hi show ?thesis by blast
qed

lemma Do_all_concat: "Do_all a xss = Do a (concat xss)"
proof (induction xss arbitrary: a)
  case Nil
  show ?case by simp
next
  case (Cons xs xss)
  have "Do a (xs @ ys) = Do (Do a xs) ys" for ys
    by (induction xs arbitrary: a) simp_all
  with Cons show ?case by simp
qed

lemma Do_welford:
  "(n (Do a xs), mean (Do a xs), m2 (Do a xs)) = foldl welford_step (n a, mean a, m2 a) xs"
  by (induction xs arbitrary: a) (simp_all add: Do_body_def welford_step_def Let_def)

lemma count_step:
  "fadd (Fin (real (min k (2 ^ 53)))) (Fin 1) = Fin (real (min (Suc k) (2 ^ 53)))"
proof (cases "k < 2 ^ 53")
  case True
  then have "real (min k (2 ^ 53)) + 1 = real (Suc k)" "Suc k \<le> 2 ^ 53" "min (Suc k) (2 ^ 53) = Suc k"
    by simp_all
  with round64_nat [of "Suc k"] show ?thesis by (simp only: fadd.simps)
next
  case False
  then have "real (min k (2 ^ 53)) + 1 = 2 ^ 53 + 1" "min (Suc k) (2 ^ 53) = 2 ^ 53"
    by simp_all
  with round64_tie show ?thesis by (simp only: fadd.simps) simp
qed

lemma n_Do_body: "n (Do_body a v) = fadd (n a) (Fin 1)"
  by (simp add: Do_body_def Let_def)

lemma n_Do:
  "n a = Fin (real (min k (2 ^ 53))) \<Longrightarrow> n (Do a xs) = Fin (real (min (k + length xs) (2 ^ 53)))"
proof (induction xs arbitrary: a k)
  case Nil
  then show ?case by simp
next
  case (Cons x xs)
  have "n (Do_body a x) = Fin (real (min (Suc k) (2 ^ 53)))"
    unfolding n_Do_body Cons.prems by (rule count_step)
  from Cons.IH [OF this] show ?case by simp
qed

lemma n_Do_new: "n (Do new_StddevAgg xs) = Fin (real (min (length xs) (2 ^ 53)))"
  using n_Do [of new_StddevAgg 0 xs] by (simp add: new_StddevAgg_def)

lemma round64_small:
  "round64 0 = Fin 0" "round64 (1 / 2) = Fin (1 / 2)" "round64 1 = Fin 1" "round64 (3 / 2) = Fin (3 / 2)"
  "round64 2 = Fin 2" "round64 (5 / 2) = Fin (5 / 2)" "round64 3 = Fin 3" "round64 4 = Fin 4"
  "round64 5 = Fin 5"
  using round64_half [of 0] round64_half [of 1] round64_half [of 2] round64_half [of 3]
    round64_half [of 4] round64_half [of 5] round64_half [of 6] round64_half [of 8]
    round64_half [of 10]
  by simp_all

lemma Do_1234:
  "Do new_StddevAgg [Fin 1, Fin 2, Fin 3, Fin 4] = \<lparr>n = Fin 4, m2 = Fin 5, mean = Fin (5 / 2)\<rparr>"
  by (simp add: new_StddevAgg_def Do_body_def Let_def fsub_def round64_small)

lemma sqrt53_bounds: "1.2909944 < sqrt (5 / 3)" "sqrt (5 / 3) < 1.29099446"
proof -
  show "1.2909944 < sqrt (5 / 3)" by (rule real_less_rsqrt) (simp add: power2_eq_square)
  show "sqrt (5 / 3) < 1.29099446" by (rule real_less_lsqrt) (simp_all add: power2_eq_square)
qed

lemma Value_1234:
  "\<exists>y. Value (Do new_StddevAgg [Fin 1, Fin 2, Fin 3, Fin 4]) = Fin y \<and>
       \<bar>y - sqrt (5 / 3)\<bar> \<le> 1 / 2 ^ 52 \<and> \<bar>y - 1.2909944\<bar> < 1 / 10 ^ 7"
proof -
  have "(1 :: real) \<le> 5 / 3" "(5 :: real) / 3 < 2" by simp_all
  from round64_near [OF this] obtain y1
    where y1: "round64 (5 / 3) = Fin y1" "\<bar>y1 - 5 / 3\<bar> \<le> 1 / 2 ^ 53" "1 \<le> y1" "y1 \<le> 2"
    by blast
  have lt2: "y1 < 4" using y1(4) by simp
  have s1: "1 \<le> sqrt y1" using y1(3) by simp
  have "sqrt y1 < sqrt 4" using lt2 by (simp only: real_sqrt_less_iff)
  then have s2: "sqrt y1 < 2" by simp
  from round64_near [OF s1 s2] obtain y
    where y: "round64 (sqrt y1) = Fin y" "\<bar>y - sqrt y1\<bar> \<le> 1 / 2 ^ 53" by blast
  have v: "Value (Do new_StddevAgg [Fin 1, Fin 2, Fin 3, Fin 4]) = Fin y"
    unfolding Do_1234 using y1(1,3) y(1) by (simp add: Value_def fsub_def round64_small)
  have s53: "1 \<le> sqrt (5 / 3)" by simp
  have "(sqrt y1 - sqrt (5 / 3)) * (sqrt y1 + sqrt (5 / 3)) = y1 - 5 / 3"
    using y1(3) by (simp add: algebra_simps)
  then have "\<bar>sqrt y1 - sqrt (5 / 3)\<bar> * \<bar>sqrt y1 + sqrt (5 / 3)\<bar> = \<bar>y1 - 5 / 3\<bar>"
    by (simp only: abs_mult [symmetric])
  moreover have "2 \<le> \<bar>sqrt y1 + sqrt (5 / 3)\<bar>" using s1 s53 by linarith
  moreover have "0 \<le> \<bar>sqrt y1 - sqrt (5 / 3)\<bar>" by simp
  ultimately have t: "\<bar>sqrt y1 - sqrt (5 / 3)\<bar> * 2 \<le> \<bar>y1 - 5 / 3\<bar>"
    by (metis mult_left_mono)
  have u: "\<bar>sqrt y1 - sqrt (5 / 3)\<bar> \<le> \<bar>sqrt y1 - sqrt (5 / 3)\<bar> * 2" by simp
  have d1: "\<bar>sqrt y1 - sqrt (5 / 3)\<bar> \<le> 1 / 2 ^ 53"
    by (rule order_trans [OF u order_trans [OF t y1(2)]])
  have e: "(1 :: real) / 2 ^ 53 + 1 / 2 ^ 53 = 1 / 2 ^ 52" by simp
  from y(2) d1 have d: "\<bar>y - sqrt (5 / 3)\<bar> \<le> 1 / 2 ^ 52" unfolding e [symmetric] by linarith
  have "(1 :: real) / 2 ^ 52 < 1 / 10 ^ 8" by simp
  with d sqrt53_bounds have "\<bar>y - 1.2909944\<bar> < 1 / 10 ^ 7" by (simp add: abs_real_def split: if_splits)
  with v d show ?thesis by blast
qed

lemma welford_algebra:
  fixes k mu mu' v :: real
  assumes "mu' * (k + 1) = mu * k + v"
  shows "(v - mu) * (v - mu') - k * mu\<^sup>2 = v\<^sup>2 - (k + 1) * mu'\<^sup>2"
proof -
  from assms have v: "v = mu' * (k + 1) - mu * k" by simp
  show ?thesis unfolding v by (simp add: power2_eq_square algebra_simps)
qed

lemma winv_step:
  assumes "winv (k, mu, q) xs"
  shows "winv (wstep (k, mu, q) v) (xs @ [v])"
proof (cases "xs = []")
  case True
  with assms have "k = 0" "q = 0" by (simp_all add: winv_def)
  with True show ?thesis by (simp add: winv_def wstep_def)
next
  case False
  let ?k = "real (length xs)"
  let ?mu' = "mu + (v - mu) / (?k + 1)"
  let ?q' = "q + (v - mu) * (v - ?mu')"
  have "0 \<le> ?k" by simp
  then have k1: "?k + 1 \<noteq> 0" by linarith
  from assms False have k: "k = ?k" and me: "mu * ?k = sum_list xs"
    and m: "q = (\<Sum>x\<leftarrow>xs. x\<^sup>2) - ?k * mu\<^sup>2"
    by (simp_all add: winv_def)
  have me': "?mu' * (?k + 1) = mu * ?k + v"
    using k1 by (simp add: field_simps)
  have "?q' = (\<Sum>x\<leftarrow>xs. x\<^sup>2) + ((v - mu) * (v - ?mu') - ?k * mu\<^sup>2)"
    by (simp add: m)
  also have "\<dots> = (\<Sum>x\<leftarrow>xs. x\<^sup>2) + (v\<^sup>2 - (?k + 1) * ?mu'\<^sup>2)"
    by (simp only: welford_algebra [OF me'])
  finally have m': "?q' = (\<Sum>x\<leftarrow>xs. x\<^sup>2) + v\<^sup>2 - (?k + 1) * ?mu'\<^sup>2"
    by simp
  have s': "?mu' * real (length (xs @ [v])) = sum_list (xs @ [v])"
    using me' me by (simp add: add.commute)
  have q': "?q' = (\<Sum>x\<leftarrow>xs @ [v]. x\<^sup>2) - real (length (xs @ [v])) * ?mu'\<^sup>2"
    using m' by (simp add: add.commute)
  have w: "wstep (k, mu, q) v = (?k + 1, ?mu', ?q')" by (simp add: wstep_def k)
  show ?thesis
    unfolding w winv_def using s' q' by simp
qed

lemma winv_foldl: "winv s xs \<Longrightarrow> winv (foldl wstep s vs) (xs @ vs)"
proof (induction vs arbitrary: s xs)
  case Nil
  then show ?case by simp
next
  case (Cons v vs)
  obtain k mu q where s: "s = (k, mu, q)" by (cases s)
  from Cons.prems have "winv (wstep s v) (xs @ [v])" unfolding s by (rule winv_step)
  from Cons.IH [OF this] show ?case by simp
qed

lemma sum_sq_dev_expand:
  fixes xs :: "real list"
  shows "(\<Sum>x\<leftarrow>xs. (x - c)\<^sup>2) = (\<Sum>x\<leftarrow>xs. x\<^sup>2) - 2 * c * sum_list xs + real (length xs) * c\<^sup>2"
  by (induction xs) (simp_all add: power2_eq_square algebra_simps)

lemma wstep_result:
  assumes "xs \<noteq> []"
  shows "foldl wstep (0, 0, 0) xs = (real (length xs), sample_mean xs, sum_sq_dev xs)"
proof -
  let ?k = "real (length xs)"
  obtain k mu q where r: "foldl wstep (0, 0, 0) xs = (k, mu, q)" by (cases "foldl wstep (0, 0, 0) xs")
  have "winv (0, 0, 0) []" by (simp add: winv_def)
  from winv_foldl [OF this, of xs] have "winv (k, mu, q) xs" by (simp add: r)
  with assms have k: "k = ?k" and me: "mu * ?k = sum_list xs"
    and m: "q = (\<Sum>x\<leftarrow>xs. x\<^sup>2) - ?k * mu\<^sup>2"
    by (simp_all add: winv_def)
  from assms have kpos: "?k \<noteq> 0" by simp
  have sm: "sample_mean xs = mu"
    unfolding sample_mean_def using me kpos by (simp add: field_simps)
  have "sum_sq_dev xs = q"
    unfolding sum_sq_dev_def sum_sq_dev_expand sm m me [symmetric]
    by (simp add: power2_eq_square algebra_simps)
  with r k sm show ?thesis by simp
qed

lemma fsub_Fin: "fsub (Fin a) (Fin b) = round64 (a - b)"
  by (simp add: fsub_def)

lemma Do_body_exact:
  assumes "exact_run (k, mu, q) (x # xs)" "0 \<le> k"
  shows "Do_body (agg (k, mu, q)) (Fin x) = agg (wstep (k, mu, q) x)"
proof -
  define d where "d = x - mu"
  define mu' where "mu' = mu + d / (k + 1)"
  define d2 where "d2 = x - mu'"
  from assms(2) have k1: "k + 1 \<noteq> 0" by linarith
  from assms(1) have e: "round64 (k + 1) = Fin (k + 1)" "round64 d = Fin d"
    "round64 (d / (k + 1)) = Fin (d / (k + 1))" "round64 mu' = Fin mu'" "round64 d2 = Fin d2"
    "round64 (d * d2) = Fin (d * d2)" "round64 (q + d * d2) = Fin (q + d * d2)"
    by (simp_all add: Let_def exact_def d_def mu'_def d2_def)
  have 1: "fadd (Fin k) (Fin 1) = Fin (k + 1)" by (simp add: e(1))
  have 2: "fsub (Fin x) (Fin mu) = Fin d" unfolding fsub_Fin d_def [symmetric] by (rule e(2))
  have 3: "fdiv (Fin d) (Fin (k + 1)) = Fin (d / (k + 1))" using k1 by (simp add: e(3))
  have 4: "fadd (Fin mu) (Fin (d / (k + 1))) = Fin mu'"
    unfolding fadd.simps mu'_def [symmetric] by (rule e(4))
  have 5: "fsub (Fin x) (Fin mu') = Fin d2" unfolding fsub_Fin d2_def [symmetric] by (rule e(5))
  have 6: "fmul (Fin d) (Fin d2) = Fin (d * d2)" by (simp add: e(6))
  have 7: "fadd (Fin q) (Fin (d * d2)) = Fin (q + d * d2)" by (simp add: e(7))
  have "Do_body (agg (k, mu, q)) (Fin x) = \<lparr>n = Fin (k + 1), m2 = Fin (q + d * d2), mean = Fin mu'\<rparr>"
    by (simp add: Do_body_def agg_def Let_def 1 2 3 4 5 6 7 del: fadd.simps fmul.simps fdiv.simps)
  also have "\<dots> = agg (wstep (k, mu, q) x)"
    by (simp add: agg_def wstep_def d_def mu'_def d2_def)
  finally show ?thesis .
qed

lemma Do_exact:
  "exact_run s xs \<Longrightarrow> 0 \<le> fst s \<Longrightarrow> Do (agg s) (map Fin xs) = agg (foldl wstep s xs)"
proof (induction xs arbitrary: s)
  case Nil
  show ?case by simp
next
  case (Cons x xs)
  obtain k mu q where s: "s = (k, mu, q)" by (cases s)
  from Cons.prems have k: "0 \<le> k" by (simp add: s)
  from Cons.prems(1) have a: "Do_body (agg s) (Fin x) = agg (wstep s x)"
    unfolding s using k by (rule Do_body_exact)
  from Cons.prems(1) have b: "exact_run (wstep s x) xs" by (simp add: s Let_def)
  have c: "0 \<le> fst (wstep s x)" using k by (simp add: s wstep_def)
  from Cons.IH [OF b c] a show ?case by simp
qed

lemma Do_new_exact:
  assumes "exact_run (0, 0, 0) xs" "xs \<noteq> []"
  shows "Do new_StddevAgg (map Fin xs) =
           \<lparr>n = Fin (real (length xs)), m2 = Fin (sum_sq_dev xs), mean = Fin (sample_mean xs)\<rparr>"
proof -
  have "new_StddevAgg = agg (0, 0, 0)" by (simp add: new_StddevAgg_def agg_def)
  with Do_exact [OF assms(1)] have "Do new_StddevAgg (map Fin xs) = agg (foldl wstep (0, 0, 0) xs)"
    by simp
  then show ?thesis unfolding wstep_result [OF assms(2)] by (simp add: agg_def)
qed

text \<open>With two values the result can be NaN: the difference of two large values overflows.\<close>

lemma round64_big: "round64 (2 ^ 1023) = Fin (2 ^ 1023)"
proof -
  define x :: real where "x = 2 ^ 1023"
  have x0: "x \<noteq> 0" by (simp add: x_def)
  have "\<bar>x\<bar> < pow2 (1023 + 1)" by (simp add: pow2_def x_def)
  then have "expo x \<le> 1023" using x0 by (intro expo_le) simp_all
  then have f1: "expo x - 52 \<le> 971" by simp
  have "(2 :: real) ^ 1023 = 2 ^ 52 * 2 ^ 971" by (simp only: power_add [symmetric]) simp
  then have f2: "x = of_int (2 ^ 52) * pow2 971" by (simp add: pow2_def x_def)
  have f3: "\<bar>x\<bar> < 2 ^ 1024" by (simp add: x_def)
  from round64_dyadic [OF f2 f1 f3] show ?thesis by (simp add: x_def)
qed

lemma round64_overflow: "round64 (- (2 ^ 1023) - 2 ^ 1023) = NInf"
proof -
  define x :: real where "x = - (2 ^ 1023) - 2 ^ 1023"
  have x: "x = - (2 ^ 1024)" by (simp add: x_def)
  have x0: "x \<noteq> 0" "\<not> 0 < x" by (simp_all add: x)
  have "expo x = max 1024 (- 1022)" by (rule expo_eq) (simp_all add: pow2_def x)
  then have e: "expo x = 1024" by simp
  have q: "pow2 (expo x - 52) = 2 ^ 972" by (simp add: e pow2_def)
  have "(2 :: real) ^ 1024 = 2 ^ 52 * 2 ^ 972" by (simp only: power_add [symmetric]) simp
  then have d: "x / 2 ^ 972 = of_int (- (2 ^ 52))" by (simp add: x)
  have y: "of_int (round_even (x / 2 ^ 972)) * (2 :: real) ^ 972 = - (2 ^ 1024)"
    unfolding d round_even_int by (simp only: of_int_minus of_int_power of_int_numeral mult_minus_left power_add [symmetric]) simp
  have "round64 x = NInf"
    unfolding round64_def Let_def q y using x0 by simp
  then show ?thesis by (simp only: x_def)
qed

lemma Value_overflow_aux:
  assumes big: "round64 h = Fin h" and ovf: "round64 (- (2 * h)) = NInf"
  shows "Value (Do new_StddevAgg [Fin h, Fin (- h)]) = NaN"
proof -
  have a: "Do_body new_StddevAgg (Fin h) = \<lparr>n = Fin 1, m2 = Fin 0, mean = Fin h\<rparr>"
    by (simp add: new_StddevAgg_def Do_body_def Let_def fsub_Fin round64_small big)
  have b: "Do_body \<lparr>n = Fin 1, m2 = Fin 0, mean = Fin h\<rparr> (Fin (- h)) =
             \<lparr>n = Fin 2, m2 = NInf, mean = NInf\<rparr>"
    by (simp add: Do_body_def Let_def fsub_Fin round64_small ovf inf_of_def fsub_def [of _ NInf])
  show ?thesis by (simp add: a b Value_def fsub_Fin round64_small inf_of_def)
qed

lemma Value_overflow:
  "Value (Do new_StddevAgg [Fin (2 ^ 1023), Fin (- (2 ^ 1023))]) = NaN"
proof -
  have "- (2 * (2 :: real) ^ 1023) = - (2 ^ 1023) - 2 ^ 1023" by simp
  then have "round64 (- (2 * 2 ^ 1023)) = NInf" by (simp only: round64_overflow)
  with round64_big show ?thesis by (rule Value_overflow_aux)
qed

lemma exact_run_1234: "exact_run (0, 0, 0) [1, 2, 3, 4]"
  by (simp add: wstep_def Let_def exact_def round64_small)



text \<open>
  Claim C10. \<open>Reset\<close> restores the state of a newly allocated aggregator, so feeding
  \<open>xss\<close>, resetting, then feeding \<open>yss\<close> gives the same \<open>Value\<close> as feeding \<open>yss\<close> to a
  fresh aggregator, whatever the state \<open>a\<close> before.
\<close>

theorem Reset_restores_new:
  "Reset a = new_StddevAgg \<and>
   Value (Do_all (Reset (Do_all a xss)) yss) = Value (Do_all new_StddevAgg yss)"
proof -
  have r: "Reset b = new_StddevAgg" for b
    by (simp add: Reset_def new_StddevAgg_def)
  show ?thesis by (simp only: r)
qed


section \<open>Properties of the storage source\<close>

lemma Run_add:
  "Run k1 s wd = (Running, s1, w1) \<Longrightarrow> Run (k1 + k2) s wd = Run k2 s1 w1"
proof (induction k1 arbitrary: s wd)
  case 0
  then show ?case by simp
next
  case (Suc k1)
  then show ?case
    by (auto split: prod.splits if_splits)
qed

lemma Run_error_now:
  assumes "\<not> Stop (bounds s) <s currentTime s"
    and "reader s (readSpec s) (currentTime s - Period (window s)) (currentTime s) = Inl er"
  shows "Run (Suc k) s wd =
           (Returned, s\<lparr>currentTime := currentTime s + Every (window s)\<rparr>,
            wd\<lparr>events := events wd @ map (\<lambda>t. Finish t (id' s)) (ts s), logged := logged wd @ [er]\<rparr>)"
  using assms by (simp add: Next_def Let_def)

lemma watermarks_append: "watermarks t (es @ fs) = watermarks t es @ watermarks t fs"
  by (induction t es rule: watermarks.induct) auto

lemma watermarks_drain: "watermarks t (drain tfs i bi mark) = replicate (count_list tfs t) mark"
proof -
  have a: "watermarks t (concat (map (\<lambda>t. [Process t i b, UpdateProcessingTime t i]) tfs)) = []" for b
    by (induction tfs) auto
  have b: "watermarks t (concat (map (\<lambda>b. concat (map (\<lambda>t. [Process t i b, UpdateProcessingTime t i]) tfs)) bi)) = []"
    by (induction bi) (auto simp: watermarks_append a)
  have c: "watermarks t (map (\<lambda>t. UpdateWatermark t i mark) tfs) = replicate (count_list tfs t) mark"
    by (induction tfs) auto
  show ?thesis by (simp add: drain_def watermarks_append b c)
qed

lemma watermarks_Finish: "watermarks t (map (\<lambda>t. Finish t i) tfs) = []"
  by (induction tfs) auto


lemma sint_advance:
  fixes c e S :: Time
  assumes "0 \<le>s e" and "\<not> S <s c" and "sint S + sint e < 2 ^ 63"
  shows "sint (c + e) = sint c + sint e"
proof -
  from assms(1) have e0: "0 \<le> sint e" by (simp add: word_sle_eq)
  from assms(2) have cS: "sint c \<le> sint S" by (simp add: word_sless_alt)
  have lo: "- (2 ^ 63) \<le> sint c" using sint_ge [of c] by simp
  have "sint (c + e) = signed_take_bit 63 (sint c + sint e)"
    by (simp add: sint_word_add)
  also have "\<dots> = sint c + sint e"
    by (rule signed_take_bit_int_eq_self) (use e0 cS lo assms(3) in linarith)+
  finally show ?thesis .
qed

lemma Run_watermarks:
  assumes "0 \<le>s Every (window s)"
    and "sint (Stop (bounds s)) + sint (Every (window s)) < 2 ^ 63"
  shows "\<exists>L. watermarks t (events (snd (snd (Run k s wd)))) = watermarks t (events wd) @ L \<and>
             sorted_wrt (\<le>s) L \<and>
             (\<forall>x\<in>set L. currentTime s \<le>s x \<and> (\<exists>i<k. x = currentTime s + of_nat i * Every (window s)))"
  using assms
proof (induction k arbitrary: s wd)
  case 0
  then show ?case by simp
next
  case (Suc k)
  let ?s' = "s\<lparr>currentTime := currentTime s + Every (window s)\<rparr>"
  let ?rd = "reader s (readSpec s) (currentTime s - Period (window s)) (currentTime s)"
  show ?case
  proof (cases "\<not> Stop (bounds s) <s currentTime s \<and> (\<exists>bi. ?rd = Inr bi)")
    case False
    then have "watermarks t (events (snd (snd (Run (Suc k) s wd)))) = watermarks t (events wd) @ []"
      by (auto simp: Next_def Let_def watermarks_append watermarks_Finish split: sum.splits)
    then show ?thesis by (intro exI [of _ "[]"]) simp
  next
    case True
    then obtain bi where inb: "\<not> Stop (bounds s) <s currentTime s" and rd: "?rd = Inr bi" by auto
    let ?w' = "wd\<lparr>events := events wd @ drain (ts s) (id' s) bi (currentTime s), logged := logged wd\<rparr>"
    have run: "Run (Suc k) s wd = Run k ?s' ?w'"
      using inb rd by (simp add: Next_def Let_def)
    have adv: "sint (currentTime ?s') = sint (currentTime s) + sint (Every (window s))"
      using sint_advance [OF Suc.prems(1) inb Suc.prems(2)] by simp
    from Suc.prems(1) have e0: "0 \<le> sint (Every (window s))" by (simp add: word_sle_eq)
    from Suc.IH [of ?s' ?w'] Suc.prems
    obtain L where L: "watermarks t (events (snd (snd (Run k ?s' ?w')))) = watermarks t (events ?w') @ L"
      and sL: "sorted_wrt (\<le>s) L"
      and bL: "\<forall>x\<in>set L. currentTime ?s' \<le>s x \<and> (\<exists>i<k. x = currentTime ?s' + of_nat i * Every (window ?s'))"
      by auto
    let ?R = "replicate (count_list (ts s) t) (currentTime s)"
    have 1: "watermarks t (events (snd (snd (Run (Suc k) s wd)))) = watermarks t (events wd) @ (?R @ L)"
      unfolding run L by (simp add: watermarks_append watermarks_drain)
    have ge: "currentTime s \<le>s x" if "x \<in> set L" for x
    proof -
      from bL that have "sint (currentTime ?s') \<le> sint x" by (simp add: word_sle_eq)
      with adv e0 show ?thesis by (simp add: word_sle_eq)
    qed
    have 2: "sorted_wrt (\<le>s) (?R @ L)"
      using sL ge by (auto simp: sorted_wrt_append signed.sorted_replicate)
    have 3: "currentTime s \<le>s x \<and> (\<exists>i<Suc k. x = currentTime s + of_nat i * Every (window s))"
      if "x \<in> set (?R @ L)" for x
    proof (cases "x \<in> set L")
      case True
      with bL obtain i where "i < k" "x = currentTime ?s' + of_nat i * Every (window ?s')" by blast
      then have "Suc i < Suc k" "x = currentTime s + of_nat (Suc i) * Every (window s)"
        by (simp_all add: algebra_simps)
      with ge [OF True] show ?thesis by blast
    next
      case False
      with that have "x = currentTime s" by (auto split: if_splits)
      then show ?thesis by (auto intro: exI [of _ 0])
    qed
    from 1 2 3 show ?thesis by blast
  qed
qed

lemma Next_src_failing:
  "Next src_failing [] = ((None, 0, False), src0\<lparr>currentTime := 40\<rparr>, [''read failed''])"
  by (simp add: src_failing_def src0_def Next_def Let_def word_sless_alt)

text \<open>
  Claim C5, as the code has it. \<open>Next\<close> always advances \<open>currentTime\<close> by \<open>every\<close>. It
  reports a window exactly when the stop of the window, the \<open>currentTime\<close> before the
  call, does not exceed \<open>bounds.Stop\<close> and the read of the half-open window
  \<open>[currentTime - period, currentTime)\<close> succeeds; it then yields the iterator of that
  read and the stop as the mark. In every other case it yields nil and 0.
\<close>

theorem Next_window:
  "case Next s lg of
     ((bi, mark, okv), s', lg') \<Rightarrow>
       s' = s\<lparr>currentTime := currentTime s + Every (window s)\<rparr> \<and>
       (okv \<longleftrightarrow> \<not> Stop (bounds s) <s currentTime s \<and>
          (\<exists>it. reader s (readSpec s) (currentTime s - Period (window s)) (currentTime s) = Inr it)) \<and>
       (okv \<longrightarrow> lg' = lg \<and> mark = currentTime s \<and>
          reader s (readSpec s) (currentTime s - Period (window s)) (currentTime s) = Inr (the bi)) \<and>
       (\<not> okv \<longrightarrow> bi = None \<and> mark = 0)"
  by (simp add: Next_def Let_def split: sum.split)

theorem Next_window_witness:
  "Next src0 [] = ((Some [(0, 10)], 10, True), src0\<lparr>currentTime := 20\<rparr>, [])"
  using Next_window [of src0 "[]"]
  by (simp add: src0_def Next_def Let_def word_sless_alt)

text \<open>
  Claim C5 as stated fails: at the window that stops at 30, within the bounds, the
  read fails and \<open>Next\<close> reports no further windows.
\<close>

theorem Next_stops_on_read_error:
  "snd (snd (fst (Next src_failing []))) = False \<and>
   \<not> Stop (bounds src_failing) <s currentTime src_failing"
  unfolding Next_src_failing by (simp add: src_failing_def src0_def word_sless_alt)

text \<open>
  Claim C6, as the code has it. When \<open>every\<close> is non-negative and \<open>bounds.Stop + every\<close>
  does not exceed the largest \<open>Time\<close>, the watermarks sent to a transformation in
  any number of rounds of \<open>Run\<close> are non-decreasing, and each is the stop of a window:
  \<open>currentTime + i * every\<close> for a round \<open>i\<close>.
\<close>

theorem watermarks_monotone:
  assumes "0 \<le>s Every (window s)"
    and "sint (Stop (bounds s)) + sint (Every (window s)) < 2 ^ 63"
    and "events wd = []"
  shows "sorted_wrt (\<le>s) (watermarks t (events (snd (snd (Run k s wd))))) \<and>
         (\<forall>x\<in>set (watermarks t (events (snd (snd (Run k s wd))))).
            \<exists>i<k. x = currentTime s + of_nat i * Every (window s))"
  using Run_watermarks [OF assms(1,2), of t k wd] assms(3) by auto

theorem watermarks_monotone_witness:
  "0 \<le>s Every (window src0) \<and>
   sint (Stop (bounds src0)) + sint (Every (window src0)) < 2 ^ 63 \<and>
   events world0 = [] \<and>
   sorted_wrt (\<le>s) (watermarks 0 (events (snd (snd (Run 5 src0 world0)))))"
  using watermarks_monotone [of src0 world0 0 5]
  by (simp add: src0_def world0_def word_sle_eq)

text \<open>
  Claim C6 as stated fails: with \<open>every = 4\<close>, two ticks below the largest \<open>Time\<close>,
  the second watermark has wrapped around and is below the first.
\<close>

theorem watermarks_wrap_around:
  "0 \<le>s Every (window src_ovf) \<and>
   watermarks 0 (events (snd (snd (Run 2 src_ovf \<lparr>events = [], logged = []\<rparr>))))
     = [0x7FFFFFFFFFFFFFFE, 0x8000000000000002] \<and>
   \<not> (0x7FFFFFFFFFFFFFFE :: Time) \<le>s 0x8000000000000002"
  by (simp add: src_ovf_def Next_def Let_def word_sless_alt word_sle_eq drain_def numeral_2_eq_2)

text \<open>
  Claim C2, as the code has it. When the read of a window fails, after any number of
  windows, \<open>Run\<close> returns: it appends the error to the log, calls \<open>Finish\<close> on every
  transformation, and makes no other call.
\<close>

theorem Run_read_error:
  assumes "Run k1 s wd = (Running, s1, w1)"
    and "\<not> Stop (bounds s1) <s currentTime s1"
    and "reader s1 (readSpec s1) (currentTime s1 - Period (window s1)) (currentTime s1) = Inl er"
  shows "Run (k1 + Suc k2) s wd =
           (Returned, s1\<lparr>currentTime := currentTime s1 + Every (window s1)\<rparr>,
            w1\<lparr>events := events w1 @ map (\<lambda>t. Finish t (id' s1)) (ts s1), logged := logged w1 @ [er]\<rparr>)"
  unfolding Run_add [OF assms(1)] using assms(2,3) by (rule Run_error_now)

lemma Run_src0_2:
  "Run 2 src0 world0 =
     (Running, src_failing,
      \<lparr>events = [Process 0 7 (0, 10), UpdateProcessingTime 0 7, Process 1 7 (0, 10), UpdateProcessingTime 1 7,
                 UpdateWatermark 0 7 10, UpdateWatermark 1 7 10,
                 Process 0 7 (10, 20), UpdateProcessingTime 0 7, Process 1 7 (10, 20), UpdateProcessingTime 1 7,
                 UpdateWatermark 0 7 20, UpdateWatermark 1 7 20],
       logged = []\<rparr>)"
proof -
  have "Run (Suc (Suc 0)) src0 world0 =
     (Running, src_failing,
      \<lparr>events = [Process 0 7 (0, 10), UpdateProcessingTime 0 7, Process 1 7 (0, 10), UpdateProcessingTime 1 7,
                 UpdateWatermark 0 7 10, UpdateWatermark 1 7 10,
                 Process 0 7 (10, 20), UpdateProcessingTime 0 7, Process 1 7 (10, 20), UpdateProcessingTime 1 7,
                 UpdateWatermark 0 7 20, UpdateWatermark 1 7 20],
       logged = []\<rparr>)"
    by (simp add: src_failing_def src0_def world0_def Next_def Let_def word_sless_alt drain_def)
  then show ?thesis by (simp only: numeral_2_eq_2)
qed

theorem Run_read_error_witness:
  "fst (Run 3 src0 world0) = Returned \<and>
   logged (snd (snd (Run 3 src0 world0))) = [''read failed''] \<and>
   drop 12 (events (snd (snd (Run 3 src0 world0)))) = [Finish 0 7, Finish 1 7]"
  using Run_read_error [OF Run_src0_2, of "''read failed''" 0]
  by (simp add: src_failing_def src0_def word_sless_alt)

text \<open>
  Claim C2 as stated fails: the calls made downstream on a read error are the calls
  made when the windows are exhausted, and the error is in the log only.
\<close>

theorem read_error_not_propagated:
  "Run 1 src_failing world0 =
     (Returned, src0\<lparr>currentTime := 40\<rparr>, \<lparr>events = [Finish 0 7, Finish 1 7], logged = [''read failed'']\<rparr>) \<and>
   Run 1 src_exhausted world0 =
     (Returned, src0\<lparr>currentTime := 120\<rparr>, \<lparr>events = [Finish 0 7, Finish 1 7], logged = []\<rparr>)"
  by (simp add: src_failing_def src_exhausted_def src0_def world0_def Next_def Let_def word_sless_alt)


section \<open>Properties of the planner\<close>

lemma removeID_loop_eq:
  "removeID_loop pre xs r = (if r \<in> set xs then pre @ remove1 r xs else [])"
  by (induction xs arbitrary: pre) auto

lemma removeID_eq: "removeID xs r = (if r \<in> set xs then remove1 r xs else [])"
  by (simp add: removeID_def removeID_loop_eq)

lemma set_removeID: "distinct xs \<Longrightarrow> set (removeID xs r) \<subseteq> set xs - {r}"
  by (auto simp: removeID_eq)

lemma set_removeID_subset: "set (removeID xs r) \<subseteq> set xs"
  using set_remove1_subset [of r xs] by (auto simp: removeID_eq)

lemma distinct_removeID: "distinct xs \<Longrightarrow> distinct (removeID xs r)"
  by (simp add: removeID_eq)

lemma splice_parents_exact:
  assumes "splice_parents p pr ids = Inr p'" and "distinct ids"
  shows "Procedures p' = Procedures p \<and> Order p' = Order p \<and> Results p' = Results p \<and> Bounds' p' = Bounds' p \<and>
         (\<forall>i\<in>set ids. lookup p i \<noteq> None) \<and>
         (\<forall>i. store p' i = (if i \<in> set ids
                then map_option (\<lambda>parent. parent\<lparr>Children := removeID (Children parent) (ID pr) @ Children pr\<rparr>) (store p i)
                else store p i))"
  using assms
proof (induction ids arbitrary: p)
  case Nil
  then show ?case by simp
next
  case (Cons i ids)
  from Cons.prems(1) obtain parent where lk: "lookup p i = Some parent"
    by (auto split: option.splits)
  let ?p1 = "p\<lparr>store := (store p)(i \<mapsto> parent\<lparr>Children := removeID (Children parent) (ID pr) @ Children pr\<rparr>)\<rparr>"
  from Cons.prems(1) lk have rec: "splice_parents ?p1 pr ids = Inr p'" by simp
  from Cons.prems(2) have d: "distinct ids" and ni: "i \<notin> set ids" by auto
  from lk have st: "store p i = Some parent" by (auto simp: lookup_def split: if_splits)
  from Cons.IH [OF rec d] lk st ni show ?case
    by (auto simp: lookup_def split: if_splits)
qed

lemma splice_children_exact:
  assumes "splice_children p pr ids = Inr p'" and "distinct ids"
  shows "Procedures p' = Procedures p \<and> Order p' = Order p \<and> Results p' = Results p \<and> Bounds' p' = Bounds' p \<and>
         (\<forall>i\<in>set ids. lookup p i \<noteq> None) \<and>
         (\<forall>i. store p' i = (if i \<in> set ids
                then map_option (\<lambda>child. child\<lparr>Parents := removeID (Parents child) (ID pr) @ Parents pr\<rparr>) (store p i)
                else store p i))"
  using assms
proof (induction ids arbitrary: p)
  case Nil
  then show ?case by simp
next
  case (Cons i ids)
  from Cons.prems(1) obtain child where lk: "lookup p i = Some child"
    by (auto split: option.splits)
  let ?p1 = "p\<lparr>store := (store p)(i \<mapsto> child\<lparr>Parents := removeID (Parents child) (ID pr) @ Parents pr\<rparr>)\<rparr>"
  from Cons.prems(1) lk have rec: "splice_children ?p1 pr ids = Inr p'" by simp
  from Cons.prems(2) have d: "distinct ids" and ni: "i \<notin> set ids" by auto
  from lk have st: "store p i = Some child" by (auto simp: lookup_def split: if_splits)
  from Cons.IH [OF rec d] lk st ni show ?case
    by (auto simp: lookup_def split: if_splits)
qed

lemma removeProcedure_exact:
  assumes rp: "removeProcedure p pr = Inr p'"
    and dp: "distinct (Parents pr)" and dc: "distinct (Children pr)"
  shows "Procedures p' = Procedures p - {ID pr}"
    and "Order p' = removeID (Order p) (ID pr)"
    and "Results p' = Results p" and "Bounds' p' = Bounds' p"
    and "\<And>i. i \<in> set (Parents pr) \<union> set (Children pr) \<Longrightarrow> i \<noteq> ID pr \<and> lookup p i \<noteq> None"
    and "\<And>i. store p' i = map_option
           (\<lambda>q. q\<lparr>Children := (if i \<in> set (Parents pr) then removeID (Children q) (ID pr) @ Children pr else Children q),
                  Parents := (if i \<in> set (Children pr) then removeID (Parents q) (ID pr) @ Parents pr else Parents q)\<rparr>)
           (store p i)"
proof -
  let ?p1 = "p\<lparr>Procedures := Procedures p - {ID pr}, Order := removeID (Order p) (ID pr)\<rparr>"
  from rp obtain p2 where sp: "splice_parents ?p1 pr (Parents pr) = Inr p2"
    and sc: "splice_children p2 pr (Children pr) = Inr p'"
    by (auto simp: removeProcedure_def Let_def split: sum.splits)
  note P = splice_parents_exact [OF sp dp]
  note C = splice_children_exact [OF sc dc]
  show "Procedures p' = Procedures p - {ID pr}" using P C by simp
  show "Order p' = removeID (Order p) (ID pr)" using P C by simp
  show "Results p' = Results p" using P C by simp
  show "Bounds' p' = Bounds' p" using P C by simp
  show "i \<noteq> ID pr \<and> lookup p i \<noteq> None" if "i \<in> set (Parents pr) \<union> set (Children pr)" for i
  proof -
    from that P C have "lookup ?p1 i \<noteq> None \<or> lookup p2 i \<noteq> None" by auto
    moreover have "lookup p2 i \<noteq> None \<Longrightarrow> lookup ?p1 i \<noteq> None"
      using P by (auto simp: lookup_def split: if_splits)
    ultimately have "lookup ?p1 i \<noteq> None" by blast
    then show ?thesis by (auto simp: lookup_def split: if_splits)
  qed
  show "store p' i = map_option
           (\<lambda>q. q\<lparr>Children := (if i \<in> set (Parents pr) then removeID (Children q) (ID pr) @ Children pr else Children q),
                  Parents := (if i \<in> set (Children pr) then removeID (Parents q) (ID pr) @ Parents pr else Parents q)\<rparr>)
           (store p i)" for i
  proof -
    have c: "store p' i = (if i \<in> set (Children pr)
                then map_option (\<lambda>child. child\<lparr>Parents := removeID (Parents child) (ID pr) @ Parents pr\<rparr>) (store p2 i)
                else store p2 i)" using C by blast
    have a: "store p2 i = (if i \<in> set (Parents pr)
                then map_option (\<lambda>parent. parent\<lparr>Children := removeID (Children parent) (ID pr) @ Children pr\<rparr>) (store p i)
                else store p i)" using P by simp
    show ?thesis unfolding c a by (cases "store p i") auto
  qed
qed

lemma same_kind_refl: "same_kind q q"
  by (simp add: same_kind_def)

lemma same_shape_refl: "same_shape p p"
  by (simp add: same_shape_def option.rel_refl same_kind_refl)

lemma same_shape_trans: "same_shape p p1 \<Longrightarrow> same_shape p1 p2 \<Longrightarrow> same_shape p p2"
  unfolding same_shape_def
proof (intro allI)
  fix i
  assume a: "\<forall>i. rel_option same_kind (store p i) (store p1 i)"
    and b: "\<forall>i. rel_option same_kind (store p1 i) (store p2 i)"
  from a b have "rel_option same_kind (store p i) (store p1 i)" "rel_option same_kind (store p1 i) (store p2 i)"
    by blast+
  then show "rel_option same_kind (store p i) (store p2 i)"
    by (cases "store p i"; cases "store p1 i"; cases "store p2 i") (auto simp: same_kind_def)
qed

lemma same_shape_update:
  "store p i = Some q \<Longrightarrow> same_kind q q' \<Longrightarrow> same_shape p (p\<lparr>store := (store p)(i \<mapsto> q')\<rparr>)"
  by (auto simp: same_shape_def option.rel_refl same_kind_refl)

lemma same_shape_keyed: "same_shape p p' \<Longrightarrow> keyed p \<Longrightarrow> keyed p'"
  unfolding same_shape_def keyed_def
proof (intro allI impI)
  fix i q
  assume a: "\<forall>i. rel_option same_kind (store p i) (store p' i)"
    and k: "\<forall>i q. store p i = Some q \<longrightarrow> ID q = i" and s: "store p' i = Some q"
  from a have "rel_option same_kind (store p i) (store p' i)" by blast
  with s obtain q0 where "store p i = Some q0" "same_kind q0 q"
    by (cases "store p i") auto
  with k show "ID q = i" by (auto simp: same_kind_def)
qed

lemma same_shape_push_down: "same_shape p p' \<Longrightarrow> is_push_down p' i = is_push_down p i"
proof -
  assume "same_shape p p'"
  then have "rel_option same_kind (store p i) (store p' i)" by (simp add: same_shape_def)
  then show ?thesis
    by (cases "store p i"; cases "store p' i") (auto simp: is_push_down_def same_kind_def)
qed

lemma PushDown_same_kind: "PushDown sp q = Inr q' \<Longrightarrow> same_kind q q'"
  by (cases sp; cases "Spec q")
     (auto simp: same_kind_def RangeProcedureSpec_PushDown_def WhereProcedureSpec_PushDown_def
           split: option.splits)

lemma pushDownAndSearch_frame:
  "pushDownAndSearch k p ps rule do = Some (Inr p') \<Longrightarrow>
   (\<forall>q q'. do q = Inr q' \<longrightarrow> same_kind q q') \<Longrightarrow>
   Procedures p' = Procedures p \<and> Order p' = Order p \<and> same_shape p p'"
proof (induction k p ps rule "do" arbitrary: p' rule: pushDownAndSearch.induct)
  case (1 p parents rule do)
  then show ?case by simp
next
  case (2 fuel p rule do)
  then show ?case by (simp add: same_shape_refl)
next
  case (3 fuel p parent parents rule do)
  note eq = "3.prems"(1) and sk = "3.prems"(2)
  from eq obtain pp where lk: "lookup p parent = Some pp"
    by (auto split: option.splits)
  then have st: "store p parent = Some pp" by (auto simp: lookup_def split: if_splits)
  show ?case
  proof (cases "Kind (Spec pp) = Root rule")
    case True
    with eq lk obtain pp' where d: "do pp = Inr pp'"
      and r: "pushDownAndSearch fuel (p\<lparr>store := (store p)(parent \<mapsto> pp')\<rparr>) parents rule do = Some (Inr p')"
      by (auto simp: Let_def split: sum.splits)
    from sk d have "same_kind pp pp'" by blast
    from "3.IH"(1) [OF lk refl True d r sk] same_shape_update [OF st this]
    show ?thesis by (auto intro: same_shape_trans)
  next
    case False
    show ?thesis
    proof (cases "hasKind (Kind (Spec pp)) (Through rule)")
      case True
      with eq lk False obtain p1 where
        a: "pushDownAndSearch fuel p (Parents pp) rule do = Some (Inr p1)"
        and b: "pushDownAndSearch fuel p1 parents rule do = Some (Inr p')"
        by (auto simp: Let_def split: option.splits sum.splits)
      from "3.IH"(2) [OF lk refl False True a sk] "3.IH"(3) [OF lk refl False True a refl b sk]
      show ?thesis by (auto intro: same_shape_trans)
    next
      case nt: False
      with eq lk False have "pushDownAndSearch fuel p parents rule do = Some (Inr p')"
        by (simp add: Let_def)
      from "3.IH"(4) [OF lk refl False nt this sk] show ?thesis .
    qed
  qed
qed

lemma splice_parents_frame:
  "splice_parents p pr ids = Inr p' \<Longrightarrow>
     Procedures p' = Procedures p \<and> Order p' = Order p \<and> same_shape p p'"
proof (induction ids arbitrary: p)
  case Nil
  then show ?case by (simp add: same_shape_refl)
next
  case (Cons i ids)
  from Cons.prems obtain parent where lk: "lookup p i = Some parent"
    by (auto split: option.splits)
  then have st: "store p i = Some parent" by (auto simp: lookup_def split: if_splits)
  let ?q = "parent\<lparr>Children := removeID (Children parent) (ID pr) @ Children pr\<rparr>"
  from Cons.prems lk have "splice_parents (p\<lparr>store := (store p)(i \<mapsto> ?q)\<rparr>) pr ids = Inr p'" by simp
  from Cons.IH [OF this] same_shape_update [OF st, of ?q]
  show ?case by (auto simp: same_kind_def intro: same_shape_trans)
qed

lemma splice_children_frame:
  "splice_children p pr ids = Inr p' \<Longrightarrow>
     Procedures p' = Procedures p \<and> Order p' = Order p \<and> same_shape p p'"
proof (induction ids arbitrary: p)
  case Nil
  then show ?case by (simp add: same_shape_refl)
next
  case (Cons i ids)
  from Cons.prems obtain child where lk: "lookup p i = Some child"
    by (auto split: option.splits)
  then have st: "store p i = Some child" by (auto simp: lookup_def split: if_splits)
  let ?q = "child\<lparr>Parents := removeID (Parents child) (ID pr) @ Parents pr\<rparr>"
  from Cons.prems lk have "splice_children (p\<lparr>store := (store p)(i \<mapsto> ?q)\<rparr>) pr ids = Inr p'" by simp
  from Cons.IH [OF this] same_shape_update [OF st, of ?q]
  show ?case by (auto simp: same_kind_def intro: same_shape_trans)
qed

lemma removeProcedure_frame:
  assumes "removeProcedure p pr = Inr p'"
  shows "Procedures p' = Procedures p - {ID pr} \<and> Order p' = removeID (Order p) (ID pr) \<and> same_shape p p'"
proof -
  let ?p1 = "p\<lparr>Procedures := Procedures p - {ID pr}, Order := removeID (Order p) (ID pr)\<rparr>"
  from assms obtain p2 where sp: "splice_parents ?p1 pr (Parents pr) = Inr p2"
    and sc: "splice_children p2 pr (Children pr) = Inr p'"
    by (auto simp: removeProcedure_def Let_def split: sum.splits)
  have "same_shape p ?p1" by (simp add: same_shape_def option.rel_refl same_kind_refl)
  with splice_parents_frame [OF sp] splice_children_frame [OF sc]
  show ?thesis by (auto intro: same_shape_trans)
qed

lemma populate_result:
  "populate p ids = Inr p' \<Longrightarrow> keyed p \<Longrightarrow>
     store p' = store p \<and> Order p' = Order p @ ids \<and> Procedures p' = Procedures p \<union> set ids \<and> Bounds' p' = Bounds' p"
proof (induction ids arbitrary: p)
  case Nil
  then show ?case by simp
next
  case (Cons i ids)
  from Cons.prems(1) obtain pr where st: "store p i = Some pr" by (auto split: option.splits)
  with Cons.prems(2) have idp: "ID pr = i" by (simp add: keyed_def)
  let ?p1 = "p\<lparr>Procedures := insert (ID pr) (Procedures p), Order := Order p @ [ID pr]\<rparr>"
  from Cons.prems(1) st have r: "populate ?p1 ids = Inr p'" by simp
  from Cons.prems(2) have k: "keyed ?p1" by (simp add: keyed_def)
  from Cons.IH [OF r k] idp show ?case by auto
qed

lemma find_results_frame:
  "find_results p ids = Inr p' \<Longrightarrow> store p' = store p \<and> Order p' = Order p \<and> Procedures p' = Procedures p"
proof (induction ids arbitrary: p)
  case Nil
  then show ?case by simp
next
  case (Cons i ids)
  from Cons.prems obtain pr where lk: "lookup p i = Some pr" by (auto split: option.splits)
  let ?p1 = "if Children pr = [] then p\<lparr>Results := Results p @ [ID pr]\<rparr> else p"
  from Cons.prems lk have "find_results ?p1 ids = Inr p'" by simp
  from Cons.IH [OF this] show ?case by (auto split: if_splits)
qed

lemma push_down_and_remove_frame:
  assumes eq: "push_down_and_remove k p i pr = Some (Inr p2)"
    and ky: "keyed p" and st: "store p i = Some pr"
  shows "same_shape p p2 \<and>
         (if PushDownRule_of (Spec pr) = None
          then Order p2 = Order p \<and> Procedures p2 = Procedures p
          else Order p2 = removeID (Order p) i \<and> Procedures p2 = Procedures p - {i})"
proof (cases "PushDownRule_of (Spec pr)")
  case None
  with eq show ?thesis by (simp add: push_down_and_remove_def same_shape_refl)
next
  case (Some rule)
  let ?r = "pushDownAndSearch k p (Parents pr) rule (PushDown (Spec pr))"
  from eq Some obtain p1 where a: "?r = Some (Inr p1)"
    by (cases ?r) (auto simp: push_down_and_remove_def split: sum.splits)
  from eq Some a obtain pr1 where s1: "store p1 i = Some pr1"
    by (cases "store p1 i") (auto simp: push_down_and_remove_def)
  from eq Some a s1 have b: "removeProcedure p1 pr1 = Inr p2"
    by (simp add: push_down_and_remove_def)
  have sk: "\<forall>q q'. PushDown (Spec pr) q = Inr q' \<longrightarrow> same_kind q q'"
    using PushDown_same_kind by blast
  note A = pushDownAndSearch_frame [OF a sk]
  note B = removeProcedure_frame [OF b]
  from A ky have "keyed p1" by (auto intro: same_shape_keyed)
  with s1 have id1: "ID pr1 = i" by (simp add: keyed_def)
  from A B have "same_shape p p2" by (blast intro: same_shape_trans)
  with A B id1 Some show ?thesis by simp
qed

lemma same_shape_union_bounds: "same_shape p (union_bounds tb un p pr)"
  by (simp add: union_bounds_def same_shape_def option.rel_refl same_kind_refl split: option.splits)

lemma union_bounds_frame:
  "Order (union_bounds tb un p pr) = Order p" "Procedures (union_bounds tb un p pr) = Procedures p"
  by (simp_all add: union_bounds_def split: option.splits)

lemma push_down_pass_removed:
  "push_down_pass k tb un p ids = Some (Inr p') \<Longrightarrow> keyed p \<Longrightarrow> distinct (Order p) \<Longrightarrow>
   same_shape p p' \<and> distinct (Order p') \<and> set (Order p') \<subseteq> set (Order p) \<and> Procedures p' \<subseteq> Procedures p \<and>
   (\<forall>i\<in>set ids. is_push_down p i \<longrightarrow> i \<notin> set (Order p') \<and> i \<notin> Procedures p')"
proof (induction ids arbitrary: p)
  case Nil
  then show ?case by (simp add: same_shape_refl)
next
  case (Cons i ids)
  note eq = Cons.prems(1) and ky = Cons.prems(2) and dO = Cons.prems(3)
  from eq obtain pr where st: "store p i = Some pr" by (cases "store p i") auto
  let ?r = "push_down_and_remove k p i pr"
  from eq st obtain pa where a: "?r = Some (Inr pa)"
    by (cases ?r) (auto split: sum.splits)
  from eq st a obtain pr2 where s2: "store pa i = Some pr2"
    by (cases "store pa i") auto
  let ?p2 = "union_bounds tb un pa pr2"
  from eq st a s2 have rest: "push_down_pass k tb un ?p2 ids = Some (Inr p')" by simp
  note F = push_down_and_remove_frame [OF a ky st]
  from F have sh: "same_shape p ?p2"
    using same_shape_union_bounds [of pa tb un pr2] by (blast intro: same_shape_trans)
  from sh ky have k2: "keyed ?p2" by (rule same_shape_keyed)
  have pdi: "is_push_down p i \<longleftrightarrow> PushDownRule_of (Spec pr) \<noteq> None"
    using st by (simp add: is_push_down_def)
  have d2: "distinct (Order ?p2)" and o2: "set (Order ?p2) \<subseteq> set (Order p)"
    and q2: "Procedures ?p2 \<subseteq> Procedures p"
    and rm: "is_push_down p i \<longrightarrow> i \<notin> set (Order ?p2) \<and> i \<notin> Procedures ?p2"
    using F dO set_removeID [OF dO, of i] distinct_removeID [OF dO, of i]
    by (auto simp: union_bounds_frame pdi split: if_splits)
  note IH = Cons.IH [OF rest k2 d2]
  have pd: "is_push_down ?p2 j = is_push_down p j" for j using sh by (rule same_shape_push_down)
  from IH have i1: "same_shape ?p2 p'" and i2: "distinct (Order p')"
    and i3: "set (Order p') \<subseteq> set (Order ?p2)" and i4: "Procedures p' \<subseteq> Procedures ?p2"
    and i5: "\<forall>j\<in>set ids. is_push_down p j \<longrightarrow> j \<notin> set (Order p') \<and> j \<notin> Procedures p'"
    by (simp_all add: pd)
  from sh i1 have "same_shape p p'" by (rule same_shape_trans)
  moreover from i3 o2 have "set (Order p') \<subseteq> set (Order p)" by blast
  moreover from i4 q2 have "Procedures p' \<subseteq> Procedures p" by blast
  moreover from rm i3 i4 have "is_push_down p i \<longrightarrow> i \<notin> set (Order p') \<and> i \<notin> Procedures p'" by blast
  ultimately show ?case using i2 i5 by simp
qed

lemma Plan_blocked_plan: "Plan 3 no_bounds take_new 0 blocked_plan = Some (Inr blocked_planned)"
  apply (simp add: Plan_def blocked_plan_def blocked_planned_def push_down_and_remove_def union_bounds_def
      lookup_def removeProcedure_def removeID_def SelectKind_def RangeKind_def WhereKind_def LimitKind_def
      numeral_3_eq_3 no_bounds_def take_new_def)
  apply (auto simp: fun_eq_iff)
  done

text \<open>
  Claim C1, as the code has it. Every procedure whose spec implements PushDown is
  removed by the planner, whatever its parent chains reach: after planning it is
  neither among the plan's procedures nor in the order. The logical plan lists
  distinct IDs and stores every procedure under its own ID.
\<close>

theorem Plan_removes_push_down:
  assumes pl: "Plan k tb un b0 ap = Some (Inr p)"
    and ky: "\<forall>i q. lProcedures ap i = Some q \<longrightarrow> ID q = i"
    and d: "distinct (lOrder ap)"
    and i: "i \<in> set (lOrder ap)" and pr: "lProcedures ap i = Some pr"
    and pd: "PushDownRule_of (Spec pr) \<noteq> None"
  shows "i \<notin> Procedures p \<and> i \<notin> set (Order p) \<and> lookup p i = None"
proof -
  let ?p0 = "\<lparr>store = lProcedures ap, Bounds' = b0, Procedures = {}, Order = [], Results = []\<rparr>"
  from pl obtain p1 where a: "populate ?p0 (lOrder ap) = Inr p1"
    by (cases "populate ?p0 (lOrder ap)") (auto simp: Plan_def)
  let ?r = "push_down_pass k tb un p1 (lOrder ap)"
  from pl a obtain p2 where b: "?r = Some (Inr p2)"
    by (cases ?r) (auto simp: Plan_def split: sum.splits)
  from pl a b have c: "find_results p2 (Order p2) = Inr p" by (simp add: Plan_def)
  from ky have k0: "keyed ?p0" by (simp add: keyed_def)
  note A = populate_result [OF a k0]
  from A k0 have k1: "keyed p1" by (simp add: keyed_def)
  from A d have d1: "distinct (Order p1)" by simp
  from A pr pd have "is_push_down p1 i" by (simp add: is_push_down_def)
  with push_down_pass_removed [OF b k1 d1] i have "i \<notin> set (Order p2) \<and> i \<notin> Procedures p2" by blast
  with find_results_frame [OF c] show ?thesis by (simp add: lookup_def)
qed

theorem Plan_removes_push_down_witness:
  "''range2'' \<notin> Procedures blocked_planned \<and> ''range2'' \<notin> set (Order blocked_planned) \<and>
   lookup blocked_planned ''range2'' = None"
proof -
  have ky: "\<forall>i q. lProcedures blocked_plan i = Some q \<longrightarrow> ID q = i"
    by (simp add: blocked_plan_def)
  have d: "distinct (lOrder blocked_plan)" by (simp add: blocked_plan_def)
  have i: "''range2'' \<in> set (lOrder blocked_plan)" by (simp add: blocked_plan_def)
  have pr: "lProcedures blocked_plan ''range2'' =
      Some \<lparr>ID = ''range2'', Spec = RangeSpec 5, Parents = [''count1''], Children = []\<rparr>"
    by (simp add: blocked_plan_def)
  show ?thesis
    by (rule Plan_removes_push_down [OF Plan_blocked_plan ky d i pr]) simp
qed

text \<open>
  Claim C1 as stated fails: the parent of \<open>range2\<close> is a count, neither the root nor
  a through kind of the rule; the select is left as it was, and \<open>range2\<close> is removed
  from the procedures and from the order all the same.
\<close>

theorem blocked_range_is_removed:
  "Plan 3 no_bounds take_new 0 blocked_plan = Some (Inr blocked_planned) \<and>
   ''range2'' \<notin> Procedures blocked_planned \<and> ''range2'' \<notin> set (Order blocked_planned) \<and>
   map_option Spec (lookup blocked_planned ''select0'') = Some (SelectSpec sel0) \<and>
   map_option Children (lookup blocked_planned ''count1'') = Some []"
  unfolding Plan_blocked_plan by (simp add: blocked_planned_def lookup_def)

lemma removeProcedure_diamond: "removeProcedure diamond range1 = Inr diamond_removed"
  apply (simp add: diamond_def diamond_removed_def range1_def removeProcedure_def lookup_def removeID_def)
  apply (auto simp: fun_eq_iff)
  done

text \<open>
  Claim C3, as the code has it. With distinct parents and distinct children of the
  removed procedure: in every parent's \<open>Children\<close> the first occurrence of the removed
  ID is deleted, the other entries keep their order, and the removed procedure's
  children are appended at the end; likewise in every child's \<open>Parents\<close> with the
  removed procedure's parents. (\<open>removeID\<close> returns the empty list when the ID does
  not occur.) The procedure leaves \<open>Procedures\<close>, and \<open>Order\<close> by \<open>removeID\<close>.
\<close>

theorem removeProcedure_splices:
  assumes "removeProcedure p pr = Inr p'"
    and "distinct (Parents pr)" and "distinct (Children pr)"
  shows "(\<forall>i\<in>set (Parents pr). \<exists>q. lookup p i = Some q \<and>
            map_option Children (lookup p' i) = Some (removeID (Children q) (ID pr) @ Children pr)) \<and>
         (\<forall>i\<in>set (Children pr). \<exists>q. lookup p i = Some q \<and>
            map_option Parents (lookup p' i) = Some (removeID (Parents q) (ID pr) @ Parents pr)) \<and>
         (\<forall>xs. removeID xs (ID pr) = (if ID pr \<in> set xs then remove1 (ID pr) xs else [])) \<and>
         Procedures p' = Procedures p - {ID pr} \<and> Order p' = removeID (Order p) (ID pr)"
proof -
  note E = removeProcedure_exact [OF assms]
  have lk: "lookup p' i = store p' i \<and> (\<exists>q. lookup p i = Some q \<and> store p i = Some q)"
    if "i \<in> set (Parents pr) \<union> set (Children pr)" for i
  proof -
    from E(5) [OF that] obtain q where "i \<noteq> ID pr" "lookup p i = Some q" by auto
    then show ?thesis using E(1) by (auto simp: lookup_def split: if_splits)
  qed
  have a: "\<exists>q. lookup p i = Some q \<and>
            map_option Children (lookup p' i) = Some (removeID (Children q) (ID pr) @ Children pr)"
    if "i \<in> set (Parents pr)" for i
  proof -
    from lk [of i] that obtain q where "lookup p' i = store p' i" "lookup p i = Some q" "store p i = Some q"
      by auto
    with E(6) [of i] that show ?thesis by simp
  qed
  have b: "\<exists>q. lookup p i = Some q \<and>
            map_option Parents (lookup p' i) = Some (removeID (Parents q) (ID pr) @ Parents pr)"
    if "i \<in> set (Children pr)" for i
  proof -
    from lk [of i] that obtain q where "lookup p' i = store p' i" "lookup p i = Some q" "store p i = Some q"
      by auto
    with E(6) [of i] that show ?thesis by simp
  qed
  from a b E(1,2) removeID_eq show ?thesis by blast
qed

theorem removeProcedure_splices_witness:
  "distinct (Parents range1) \<and> distinct (Children range1) \<and>
   Procedures diamond_removed = Procedures diamond - {ID range1} \<and>
   Order diamond_removed = removeID (Order diamond) (ID range1)"
proof -
  have d: "distinct (Parents range1)" "distinct (Children range1)" by (simp_all add: range1_def)
  from removeProcedure_splices [OF removeProcedure_diamond d] d
  show ?thesis by blast
qed

text \<open>
  Claim C3 as stated fails: \<open>join2\<close> is a child both of \<open>select0\<close> and of the removed
  \<open>range1\<close>; after the removal it occurs twice among the children of \<open>select0\<close>, at
  the end and not where \<open>range1\<close> was, and \<open>select0\<close> twice among the parents of \<open>join2\<close>.
\<close>

theorem removeProcedure_duplicates:
  "removeProcedure diamond range1 = Inr diamond_removed \<and>
   map_option Children (lookup diamond ''select0'') = Some [''range1'', ''join2''] \<and>
   map_option Children (lookup diamond_removed ''select0'') = Some [''join2'', ''join2''] \<and>
   map_option Parents (lookup diamond_removed ''join2'') = Some [''select0'', ''select0''] \<and>
   \<not> distinct [''join2'', ''join2'']"
  unfolding removeProcedure_diamond by (simp add: diamond_def diamond_removed_def lookup_def)

lemma Plan_two_ranges: "Plan 3 no_bounds take_new 0 two_ranges = Some (Inr two_ranges_planned)"
  apply (simp add: Plan_def two_ranges_def two_ranges_planned_def push_down_and_remove_def union_bounds_def
      lookup_def removeProcedure_def removeID_def SelectKind_def RangeKind_def WhereKind_def LimitKind_def
      numeral_3_eq_3 RangeProcedureSpec_PushDown_def sel0_def select_fresh_def select_planned_def
      no_bounds_def take_new_def)
  apply (auto simp: fun_eq_iff)
  done

lemma Plan_one_range: "Plan 3 no_bounds take_new 0 one_range = Some (Inr one_range_planned)"
  apply (simp add: Plan_def one_range_def one_range_planned_def push_down_and_remove_def union_bounds_def
      lookup_def removeProcedure_def removeID_def SelectKind_def RangeKind_def WhereKind_def LimitKind_def
      numeral_3_eq_3 RangeProcedureSpec_PushDown_def sel0_def select_fresh_def select_planned_def
      no_bounds_def take_new_def)
  apply (auto simp: fun_eq_iff)
  done

text \<open>
  Claim C4, as the code has it. A later push-down into a select root overwrites the
  value of an earlier one, for range (\<open>Bounds\<close>) and for where (\<open>Where\<close>), and nothing
  else happens: the root after both push-downs is the root after the later one alone.
\<close>

theorem second_PushDown_overwrites:
  assumes "Spec r = SelectSpec sel"
  shows "(\<exists>r1. RangeProcedureSpec_PushDown b1 r = Inr r1 \<and>
           RangeProcedureSpec_PushDown b2 r1 = Inr (r\<lparr>Spec := SelectSpec (sel\<lparr>BoundsSet := True, Bounds := b2\<rparr>)\<rparr>) \<and>
           RangeProcedureSpec_PushDown b2 r1 = RangeProcedureSpec_PushDown b2 r) \<and>
         (\<exists>r1. WhereProcedureSpec_PushDown (Some e1) r = Inr r1 \<and>
           WhereProcedureSpec_PushDown (Some e2) r1 = Inr (r\<lparr>Spec := SelectSpec (sel\<lparr>WhereSet := True, Where := Predicate e2\<rparr>)\<rparr>) \<and>
           WhereProcedureSpec_PushDown (Some e2) r1 = WhereProcedureSpec_PushDown (Some e2) r)"
  using assms by (simp add: RangeProcedureSpec_PushDown_def WhereProcedureSpec_PushDown_def)

theorem second_PushDown_overwrites_witness:
  "RangeProcedureSpec_PushDown 9 select_bounded = RangeProcedureSpec_PushDown 9 select_fresh \<and>
   RangeProcedureSpec_PushDown 5 select_fresh = Inr select_bounded"
proof -
  have s: "Spec select_fresh = SelectSpec sel0" by (simp add: select_fresh_def)
  from second_PushDown_overwrites [OF s, of 5 9]
  show ?thesis
    by (simp add: RangeProcedureSpec_PushDown_def select_fresh_def select_bounded_def)
qed

text \<open>
  Claim C4 as stated fails: nothing records the ambiguity. Pushing the bounds 9 into
  a select whose \<open>BoundsSet\<close> bit is set gives the result of pushing them into the
  fresh select, and the plan of two ranges on one select has the fields of the plan
  of the later range alone.
\<close>

theorem ambiguity_not_recorded:
  "BoundsSet (sel0\<lparr>BoundsSet := True, Bounds := 5\<rparr>) \<and>
   RangeProcedureSpec_PushDown 5 select_fresh = Inr select_bounded \<and>
   RangeProcedureSpec_PushDown 9 select_bounded = RangeProcedureSpec_PushDown 9 select_fresh \<and>
   Plan 3 no_bounds take_new 0 two_ranges = Some (Inr two_ranges_planned) \<and>
   Plan 3 no_bounds take_new 0 one_range = Some (Inr one_range_planned) \<and>
   lookup two_ranges_planned ''select0'' = lookup one_range_planned ''select0'' \<and>
   Procedures two_ranges_planned = Procedures one_range_planned \<and>
   Order two_ranges_planned = Order one_range_planned \<and>
   Results two_ranges_planned = Results one_range_planned \<and>
   Bounds' two_ranges_planned = Bounds' one_range_planned"
  unfolding Plan_two_ranges Plan_one_range
  by (simp add: RangeProcedureSpec_PushDown_def select_fresh_def select_bounded_def
      two_ranges_planned_def one_range_planned_def lookup_def)


section \<open>Properties of the parser\<close>

lemma decode_bytes_le: "snd (decode_bytes bs) \<le> length bs"
  by (cases bs rule: decode_bytes.cases) (auto split: list.splits)

lemma decode_bytes_pos: "fst (decode_bytes bs) \<noteq> RuneError \<Longrightarrow> 0 < snd (decode_bytes bs)"
  by (cases bs rule: decode_bytes.cases) (auto split: list.splits if_splits)

lemma DecodeRune_le: "snd (DecodeRune s) \<le> length s"
  using decode_bytes_le [of "map of_char s"] by (simp add: DecodeRune_def)

lemma DecodeRune_pos: "fst (DecodeRune s) \<noteq> RuneError \<Longrightarrow> 0 < snd (DecodeRune s)"
  using decode_bytes_pos [of "map of_char s"] by (simp add: DecodeRune_def)

lemma pt_ok_offset: "pt_ok d sp \<Longrightarrow> offset sp \<le> length d"
  by (simp add: pt_ok_def)

lemma wf_state_simps [simp]:
  "wf_state E (pushV p) = wf_state E p"
  "wf_state E (popV p) = wf_state E p"
  "wf_state E (p\<lparr>vstack := vs\<rparr>) = wf_state E p"
  "wf_state E (p\<lparr>rstack := rs\<rparr>) = wf_state E p"
  "wf_state E (p\<lparr>maxFailInvertExpected := b\<rparr>) = wf_state E p"
  "wf_state E (p\<lparr>cur_pos := cp, cur_text := ct\<rparr>) = wf_state E p"
  by (simp_all add: wf_state_def pushV_def popV_def)

lemma pt_simps [simp]:
  "pt (pushV p) = pt p" "pt (popV p) = pt p"
  "pt (addErrAt p x pos ex) = pt p" "pt (addErr p x) = pt p"
  "pt (failAt p b pos want) = pt p"
  by (simp_all add: pushV_def popV_def addErrAt_def addErr_def failAt_def Let_def)

lemma wf_state_addErrAt:
  "wf_state E p \<Longrightarrow> offset pos \<le> length (data E) \<Longrightarrow> wf_state E (addErrAt p x pos ex)"
  by (simp add: wf_state_def addErrAt_def)

lemma wf_state_addErr: "wf_state E p \<Longrightarrow> wf_state E (addErr p x)"
  by (simp add: addErr_def addErrAt_def position.truncate_def wf_state_def pt_ok_def)

lemma wf_state_failAt:
  "wf_state E p \<Longrightarrow> offset pos \<le> length (data E) \<Longrightarrow> wf_state E (failAt p b pos want)"
  by (simp add: wf_state_def failAt_def Let_def)

lemma wf_state_restore: "wf_state E p \<Longrightarrow> pt_ok (data E) sp \<Longrightarrow> wf_state E (restore p sp)"
  by (simp add: wf_state_def restore_def)

lemma offset_restore [simp]: "offset (pt (restore p sp)) = offset sp"
  by (simp add: restore_def)

lemma truncate_offset [simp]: "offset (position.truncate sp) = offset sp"
  by (simp add: position.truncate_def)

lemma read_offset: "offset (pt (read E p)) = offset (pt p) + w (pt p)"
  by (simp add: read_def Let_def)

lemma wf_state_read: "wf_state E p \<Longrightarrow> wf_state E (read E p)"
proof -
  assume a: "wf_state E p"
  let ?off = "offset (pt p) + w (pt p)"
  let ?d = "DecodeRune (drop ?off (data E))"
  from a have b: "?off \<le> length (data E)" by (simp add: wf_state_def pt_ok_def)
  have le: "snd ?d \<le> length (data E) - ?off" using DecodeRune_le [of "drop ?off (data E)"] by simp
  have ps: "fst ?d \<noteq> RuneError \<Longrightarrow> 0 < snd ?d" by (rule DecodeRune_pos)
  from b le have c: "?off + snd ?d \<le> length (data E)" by linarith
  show ?thesis
    using a c ps
    by (auto simp: read_def Let_def wf_state_def pt_ok_def addErr_def addErrAt_def)
qed

lemma read_progress: "wf_state E p \<Longrightarrow> rn (pt p) \<noteq> RuneError \<Longrightarrow> offset (pt p) < offset (pt (read E p))"
  by (simp add: read_offset wf_state_def pt_ok_def)

lemma post_Done [simp]:
  "post E ov p nl (Done v ok p') \<longleftrightarrow>
     wf_state E p' \<and> offset (pt p) \<le> offset (pt p') \<and> (ok \<and> offset (pt p') = offset (pt p) \<longrightarrow> nl)"
  by (simp add: post_def)

lemma post_Panicked [simp]:
  "post E ov p nl (Panicked x p') \<longleftrightarrow> wf_state E p' \<and> (x = stack_overflow \<longrightarrow> ov)"
  by (simp add: post_def)

lemma post_weaken: "post E ov p nl out \<Longrightarrow> (nl \<Longrightarrow> nl') \<Longrightarrow> post E ov p nl' out"
  by (cases out) auto

lemma sliceFrom_failAt [simp]: "sliceFrom E (failAt p b pos want) start = sliceFrom E p start"
  by (simp add: sliceFrom_def)

lemma post_parseAnyMatcher: "wf_state E p \<Longrightarrow> post E ov p False (parseAnyMatcher E p)"
proof -
  assume a: "wf_state E p"
  then have o: "offset (pt p) \<le> length (data E)" by (simp add: wf_state_def pt_ok_def)
  show ?thesis
  proof (cases "rn (pt p) = RuneError")
    case True
    with a o show ?thesis by (simp add: parseAnyMatcher_def Let_def wf_state_failAt)
  next
    case False
    from read_progress [OF a False] wf_state_read [OF a] a o False show ?thesis
      by (simp add: parseAnyMatcher_def Let_def wf_state_failAt)
  qed
qed

lemma post_parseCharClassMatcher:
  "wf_state E p \<Longrightarrow> post E ov p False (parseCharClassMatcher E val chars ranges ic inverted p)"
proof -
  assume a: "wf_state E p"
  then have o: "offset (pt p) \<le> length (data E)" by (simp add: wf_state_def pt_ok_def)
  show ?thesis
  proof (cases "rn (pt p) = RuneError")
    case True
    with a o show ?thesis by (simp add: parseCharClassMatcher_def Let_def wf_state_failAt)
  next
    case False
    from read_progress [OF a False] wf_state_read [OF a] a o False show ?thesis
      by (simp add: parseCharClassMatcher_def Let_def wf_state_failAt)
  qed
qed

lemma lit_loop_post:
  "wf_state E p \<Longrightarrow> pt_ok (data E) start \<Longrightarrow> offset start \<le> offset (pt p) \<Longrightarrow>
   (case lit_loop E ic val start wants p of
      Done v ok p' \<Rightarrow>
        wf_state E p' \<and> (if ok then offset (pt p) \<le> offset (pt p') \<and>
                              (\<not> ic \<and> wants \<noteq> [] \<and> RuneError \<notin> set wants \<longrightarrow> offset (pt p) < offset (pt p'))
                         else offset (pt p') = offset start)
    | Panicked x p' \<Rightarrow> False)"
proof (induction wants arbitrary: p)
  case Nil
  then show ?case by (simp add: Let_def wf_state_failAt pt_ok_offset)
next
  case (Cons want wants)
  let ?c = "if ic then toLower E (rn (pt p)) else rn (pt p)"
  show ?case
  proof (cases "?c = want")
    case False
    with Cons.prems show ?thesis
      by (simp add: Let_def wf_state_failAt wf_state_restore pt_ok_offset)
  next
    case True
    have wr: "wf_state E (read E p)" using Cons.prems(1) by (rule wf_state_read)
    have le: "offset (pt p) \<le> offset (pt (read E p))" by (simp add: read_offset)
    with Cons.prems(3) have st: "offset start \<le> offset (pt (read E p))" by linarith
    note IH = Cons.IH [OF wr Cons.prems(2) st]
    have lt: "offset (pt p) < offset (pt (read E p))" if "\<not> ic" "want \<noteq> RuneError"
      using that True read_progress [OF Cons.prems(1)] by simp
    from True have eq: "lit_loop E ic val start (want # wants) p = lit_loop E ic val start wants (read E p)"
      by (simp add: Let_def)
    show ?thesis unfolding eq using IH le lt
      by (cases "lit_loop E ic val start wants (read E p)") (auto split: if_splits)
  qed
qed

lemma post_parseLitMatcher:
  assumes "wf_state E p"
  shows "post E ov p (nul N (litMatcher i s ic)) (parseLitMatcher E s ic p)"
proof -
  from assms have ok: "pt_ok (data E) (pt p)" by (simp add: wf_state_def)
  from lit_loop_post [OF assms ok order_refl, where ic = ic and wants = "runes s"
      and val = "go_quote s @ (if ic then ''i'' else [])"]
  show ?thesis
    by (cases "lit_loop E ic (go_quote s @ (if ic then ''i'' else '''')) (pt p) (runes s) p")
       (auto simp: parseLitMatcher_def split: if_splits)
qed

lemma le_callD: "le_call self self' \<Longrightarrow> self t p = Some out \<Longrightarrow> self' t p = Some out"
  by (simp add: le_call_def)

lemma and_then_mono:
  assumes "and_then r k = Some out"
    and "\<And>x1. r = Some x1 \<Longrightarrow> r' = Some x1"
    and "\<And>v ok p. k v ok p = Some out \<Longrightarrow> k' v ok p = Some out"
  shows "and_then r' k' = Some out"
proof (cases r)
  case None
  with assms(1) show ?thesis by (simp add: and_then_def)
next
  case (Some o1)
  with assms(2) have r': "r' = Some o1" by simp
  from assms(1) Some assms(3) show ?thesis unfolding r'
    by (cases o1) (auto simp: and_then_def)
qed

lemma choice_loop_mono:
  "le_call self self' \<Longrightarrow> choice_loop self alts p = Some out \<Longrightarrow> choice_loop self' alts p = Some out"
proof (induction alts arbitrary: p)
  case Nil
  then show ?case by simp
next
  case (Cons alt alts)
  from Cons.prems(2) show ?case
    unfolding choice_loop.simps
    by (rule and_then_mono) (auto dest: le_callD [OF Cons.prems(1)] Cons.IH [OF Cons.prems(1)] split: if_splits)
qed

lemma seq_loop_mono:
  "le_call self self' \<Longrightarrow> seq_loop self pt0 es vals p = Some out \<Longrightarrow> seq_loop self' pt0 es vals p = Some out"
proof (induction es arbitrary: p vals)
  case Nil
  then show ?case by simp
next
  case (Cons e es)
  from Cons.prems(2) show ?case
    unfolding seq_loop.simps
    by (rule and_then_mono) (auto dest: le_callD [OF Cons.prems(1)] Cons.IH [OF Cons.prems(1)] split: if_splits)
qed

lemma parseRule_mono:
  assumes le: "le_call self self'" and eq: "parseRule self r p = Some out"
  shows "parseRule self' r p = Some out"
proof (cases "if memoize p then getMemoized p (RuleKey (name r)) else None")
  case None
  from eq have "and_then (self (Expr (expr r)) (pushV (p\<lparr>rstack := r # rstack p\<rparr>)))
       (\<lambda>val ok p1. Some (Done val ok
           (if memoize (popV p1\<lparr>rstack := tl (rstack (popV p1))\<rparr>)
            then setMemoized (popV p1\<lparr>rstack := tl (rstack (popV p1))\<rparr>) (pt p) (RuleKey (name r))
                   (val, ok, pt (popV p1\<lparr>rstack := tl (rstack (popV p1))\<rparr>))
            else popV p1\<lparr>rstack := tl (rstack (popV p1))\<rparr>))) = Some out"
    unfolding parseRule_def None by (simp add: Let_def)
  then have "and_then (self' (Expr (expr r)) (pushV (p\<lparr>rstack := r # rstack p\<rparr>)))
       (\<lambda>val ok p1. Some (Done val ok
           (if memoize (popV p1\<lparr>rstack := tl (rstack (popV p1))\<rparr>)
            then setMemoized (popV p1\<lparr>rstack := tl (rstack (popV p1))\<rparr>) (pt p) (RuleKey (name r))
                   (val, ok, pt (popV p1\<lparr>rstack := tl (rstack (popV p1))\<rparr>))
            else popV p1\<lparr>rstack := tl (rstack (popV p1))\<rparr>))) = Some out"
    by (rule and_then_mono) (auto intro: le_callD [OF le])
  then show ?thesis unfolding parseRule_def None by (simp add: Let_def)
next
  case (Some a)
  with eq show ?thesis unfolding parseRule_def by simp
qed

lemma zeroOrMore_round_mono:
  assumes le: "le_call self self'" and eq: "zeroOrMore_round self e vals p = Some out"
  shows "zeroOrMore_round self' e vals p = Some out"
  using eq unfolding zeroOrMore_round_def
  by (rule and_then_mono) (auto simp: Let_def intro: le_callD [OF le] split: if_splits)

lemma oneOrMore_round_mono:
  assumes le: "le_call self self'" and eq: "oneOrMore_round self e vals p = Some out"
  shows "oneOrMore_round self' e vals p = Some out"
  using eq unfolding oneOrMore_round_def
  by (rule and_then_mono) (auto simp: Let_def intro: le_callD [OF le] split: if_splits)

lemma parseExpr_switch_mono:
  assumes le: "le_call self self'"
  shows "parseExpr_switch E self e p = Some out \<Longrightarrow> parseExpr_switch E self' e p = Some out"
proof (cases e)
  case (actionExpr i run e1)
  then show "parseExpr_switch E self e p = Some out \<Longrightarrow> ?thesis"
    by (auto simp: parseActionExpr_def Let_def elim!: and_then_mono dest: le_callD [OF le])
next
  case (andExpr i e1)
  then show "parseExpr_switch E self e p = Some out \<Longrightarrow> ?thesis"
    by (auto simp: parseAndExpr_def Let_def elim!: and_then_mono dest: le_callD [OF le])
next
  case (notExpr i e1)
  then show "parseExpr_switch E self e p = Some out \<Longrightarrow> ?thesis"
    by (auto simp: parseNotExpr_def Let_def elim!: and_then_mono dest: le_callD [OF le])
next
  case (zeroOrOneExpr i e1)
  then show "parseExpr_switch E self e p = Some out \<Longrightarrow> ?thesis"
    by (auto simp: parseZeroOrOneExpr_def Let_def elim!: and_then_mono dest: le_callD [OF le])
next
  case (zeroOrMoreExpr i e1)
  then show "parseExpr_switch E self e p = Some out \<Longrightarrow> ?thesis"
    by (auto simp: parseZeroOrMoreExpr_def dest: zeroOrMore_round_mono [OF le])
next
  case (oneOrMoreExpr i e1)
  then show "parseExpr_switch E self e p = Some out \<Longrightarrow> ?thesis"
    by (auto simp: parseOneOrMoreExpr_def dest: oneOrMore_round_mono [OF le])
next
  case (choiceExpr i es)
  then show "parseExpr_switch E self e p = Some out \<Longrightarrow> ?thesis"
    by (auto simp: parseChoiceExpr_def dest: choice_loop_mono [OF le])
next
  case (seqExpr i es)
  then show "parseExpr_switch E self e p = Some out \<Longrightarrow> ?thesis"
    by (auto simp: parseSeqExpr_def dest: seq_loop_mono [OF le])
next
  case (labeledExpr i l e1)
  then show "parseExpr_switch E self e p = Some out \<Longrightarrow> ?thesis"
    by (auto simp: parseLabeledExpr_def Let_def elim!: and_then_mono dest: le_callD [OF le])
next
  case (ruleRefExpr i nm)
  then show "parseExpr_switch E self e p = Some out \<Longrightarrow> ?thesis"
    by (auto simp: parseRuleRefExpr_def dest: parseRule_mono [OF le] split: option.splits if_splits)
next
  case (litMatcher i s ic)
  then show "parseExpr_switch E self e p = Some out \<Longrightarrow> ?thesis" by simp
next
  case (charClassMatcher i val chars ranges ic inverted)
  then show "parseExpr_switch E self e p = Some out \<Longrightarrow> ?thesis" by simp
next
  case (anyMatcher i)
  then show "parseExpr_switch E self e p = Some out \<Longrightarrow> ?thesis" by simp
qed

lemma parseExpr_mono:
  assumes le: "le_call self self'" and eq: "parseExpr E self e p = Some out"
  shows "parseExpr E self' e p = Some out"
proof (cases "memoize p")
  case False
  with eq parseExpr_switch_mono [OF le] show ?thesis by (simp add: parseExpr_def)
next
  case True
  show ?thesis
  proof (cases "getMemoized p (ExprKey (node_id e))")
    case (Some a)
    with eq True show ?thesis by (simp add: parseExpr_def)
  next
    case None
    from eq True None have "and_then (parseExpr_switch E self e p)
        (\<lambda>val ok p1. Some (Done val ok (setMemoized p1 (pt p) (ExprKey (node_id e)) (val, ok, pt p1)))) = Some out"
      by (simp add: parseExpr_def Let_def)
    then have "and_then (parseExpr_switch E self' e p)
        (\<lambda>val ok p1. Some (Done val ok (setMemoized p1 (pt p) (ExprKey (node_id e)) (val, ok, pt p1)))) = Some out"
      by (rule and_then_mono) (auto intro: parseExpr_switch_mono [OF le])
    with True None show ?thesis by (simp add: parseExpr_def Let_def)
  qed
qed

lemma step_mono:
  assumes le: "le_call self self'" and eq: "step E self t p = Some out"
  shows "step E self' t p = Some out"
proof (cases t)
  case (Expr e)
  with eq parseExpr_mono [OF le] show ?thesis by (simp add: step_def)
next
  case (ZeroOrMoreLoop e vals)
  with eq zeroOrMore_round_mono [OF le] show ?thesis by (simp add: step_def)
next
  case (OneOrMoreLoop e vals)
  with eq oneOrMore_round_mono [OF le] show ?thesis by (simp add: step_def)
qed

lemma nested_mono:
  assumes "\<And>c. le_call (run c) (run' c)"
  shows "le_call (nested d run) (nested d run')"
  unfolding le_call_def
proof (intro allI impI)
  fix t p out
  assume "nested d run t p = Some out"
  then show "nested d run' t p = Some out"
    using assms by (cases t) (auto simp: nested_def le_call_def split: if_splits)
qed

lemma exec_Suc_mono: "le_call (exec E k d) (exec E (Suc k) d)"
proof (induction k arbitrary: d)
  case 0
  show ?case by (simp add: le_call_def)
next
  case (Suc k)
  show ?case unfolding le_call_def
  proof (intro allI impI)
    fix t p out
    assume "exec E (Suc k) d t p = Some out"
    then have a: "step E (nested d (exec E k)) t p = Some out" by (simp only: exec.simps)
    have "le_call (nested d (exec E k)) (nested d (exec E (Suc k)))"
      by (rule nested_mono) (rule Suc)
    then have s: "step E (nested d (exec E (Suc k))) t p = Some out" by (rule step_mono [OF _ a])
    show "exec E (Suc (Suc k)) d t p = Some out" by (subst exec.simps(2)) (rule s)
  qed
qed

lemma exec_mono: "k \<le> m \<Longrightarrow> le_call (exec E k d) (exec E m d)"
proof (induction m)
  case 0
  then show ?case by (simp add: le_call_def)
next
  case (Suc m)
  show ?case
  proof (cases "k = Suc m")
    case True
    then show ?thesis by (simp add: le_call_def)
  next
    case False
    with Suc.prems have "k \<le> m" by simp
    from Suc.IH [OF this] exec_Suc_mono [of E m d] show ?thesis
      by (auto simp: le_call_def)
  qed
qed

lemma nested_exec_mono: "k \<le> m \<Longrightarrow> le_call (nested d (exec E k)) (nested d (exec E m))"
  by (rule nested_mono) (rule exec_mono)

lemma exec_le: "nested c (exec E k) t p = Some out \<Longrightarrow> k \<le> m \<Longrightarrow> nested c (exec E m) t p = Some out"
  using nested_exec_mono [of k m c E] by (simp add: le_call_def)

lemma wf_not_memoize: "wf_state E p \<Longrightarrow> \<not> memoize p"
  by (simp add: wf_state_def)

lemma memoize_simps [simp]: "memoize (pushV p) = memoize p" "memoize (popV p) = memoize p"
  by (simp_all add: pushV_def popV_def)

lemma wf_state_offset: "wf_state E p \<Longrightarrow> offset (pt p) \<le> length (data E)"
  by (simp add: wf_state_def pt_ok_def)

lemma wf_state_pt_ok: "wf_state E p \<Longrightarrow> pt_ok (data E) (pt p)"
  by (simp add: wf_state_def)

lemma pred_infinity [simp]: "(d - 1 = (\<infinity> :: enat)) = (d = \<infinity>)"
  by (cases d) (simp_all add: one_enat_def)

lemma evals_ExprI:
  assumes "wf_state E p" "d \<noteq> 0" "evals_body E N (d - 1) e p"
  shows "evals E N d (Expr e) p"
proof -
  from assms(3) obtain k out
    where a: "parseExpr_switch E (nested (d - 1) (exec E k)) e p = Some out"
      and b: "post E (d \<noteq> \<infinity>) p (nul N e) out" by (auto simp: evals_body_def)
  from assms(1) have "\<not> memoize p" by (rule wf_not_memoize)
  with a assms(2) have "nested d (exec E (Suc k)) (Expr e) p = Some out"
    by (simp add: nested_def step_def parseExpr_def)
  with b show ?thesis unfolding evals_def by (intro exI [of _ "Suc k"] exI [of _ out]) simp
qed

lemma evals_overflow: "wf_state E p \<Longrightarrow> evals E N 0 (Expr e) p"
  unfolding evals_def
  by (intro exI [of _ 0] exI [of _ "Panicked stack_overflow p"]) (simp add: nested_def)

lemma action_halts:
  assumes w: "wf_state E p" and sub: "evals E N c (Expr e) p"
  shows "evals_body E N c (actionExpr i run e) p"
proof -
  from sub obtain k out1 where ex: "nested c (exec E k) (Expr e) p = Some out1" and po: "post E (c \<noteq> \<infinity>) p (nul N e) out1"
    by (auto simp: evals_def)
  from w have o: "offset (pt p) \<le> length (data E)" by (rule wf_state_offset)
  have "\<exists>out. parseActionExpr E (nested c (exec E k)) run e p = Some out \<and> post E (c \<noteq> \<infinity>) p (nul N e) out"
    using po o
    by (cases out1)
       (auto simp: parseActionExpr_def Let_def and_then_def ex wf_state_addErrAt
             split: list.splits act_result.splits option.splits)
  then show ?thesis unfolding evals_body_def by auto
qed

lemma and_halts:
  assumes w: "wf_state E p" and sub: "evals E N c (Expr e) (pushV p)"
  shows "evals_body E N c (andExpr i e) p"
proof -
  from sub obtain k out1 where ex: "nested c (exec E k) (Expr e) (pushV p) = Some out1"
    and po: "post E (c \<noteq> \<infinity>) (pushV p) (nul N e) out1" by (auto simp: evals_def)
  have "\<exists>out. parseAndExpr (nested c (exec E k)) e p = Some out \<and> post E (c \<noteq> \<infinity>) p True out"
    using po wf_state_pt_ok [OF w]
    by (cases out1) (auto simp: parseAndExpr_def Let_def and_then_def ex wf_state_restore)
  then show ?thesis unfolding evals_body_def by auto
qed

lemma not_halts:
  assumes w: "wf_state E p"
    and sub: "evals E N c (Expr e) ((pushV p)\<lparr>maxFailInvertExpected := \<not> maxFailInvertExpected p\<rparr>)"
  shows "evals_body E N c (notExpr i e) p"
proof -
  let ?p0 = "(pushV p)\<lparr>maxFailInvertExpected := \<not> maxFailInvertExpected p\<rparr>"
  from sub obtain k out1 where ex: "nested c (exec E k) (Expr e) ?p0 = Some out1"
    and po: "post E (c \<noteq> \<infinity>) ?p0 (nul N e) out1" by (auto simp: evals_def)
  have "\<exists>out. parseNotExpr (nested c (exec E k)) e p = Some out \<and> post E (c \<noteq> \<infinity>) p True out"
    using po wf_state_pt_ok [OF w]
    by (cases out1) (auto simp: parseNotExpr_def Let_def and_then_def ex wf_state_restore)
  then show ?thesis unfolding evals_body_def by auto
qed

lemma zeroOrOne_halts:
  assumes w: "wf_state E p" and sub: "evals E N c (Expr e) (pushV p)"
  shows "evals_body E N c (zeroOrOneExpr i e) p"
proof -
  from sub obtain k out1 where ex: "nested c (exec E k) (Expr e) (pushV p) = Some out1"
    and po: "post E (c \<noteq> \<infinity>) (pushV p) (nul N e) out1" by (auto simp: evals_def)
  have "\<exists>out. parseZeroOrOneExpr (nested c (exec E k)) e p = Some out \<and> post E (c \<noteq> \<infinity>) p True out"
    using po
    by (cases out1) (auto simp: parseZeroOrOneExpr_def Let_def and_then_def ex)
  then show ?thesis unfolding evals_body_def by auto
qed

lemma labeled_halts:
  assumes w: "wf_state E p" and sub: "evals E N c (Expr e) (pushV p)"
  shows "evals_body E N c (labeledExpr i l e) p"
proof -
  from sub obtain k out1 where ex: "nested c (exec E k) (Expr e) (pushV p) = Some out1"
    and po: "post E (c \<noteq> \<infinity>) (pushV p) (nul N e) out1" by (auto simp: evals_def)
  have "\<exists>out. parseLabeledExpr (nested c (exec E k)) l e p = Some out \<and> post E (c \<noteq> \<infinity>) p (nul N e) out"
    using po
    by (cases out1) (auto simp: parseLabeledExpr_def Let_def and_then_def ex split: list.splits)
  then show ?thesis unfolding evals_body_def by auto
qed

lemma parseRule_halts:
  assumes w: "wf_state E p" and sub: "evals E N c (Expr (expr r)) (pushV (p\<lparr>rstack := r # rstack p\<rparr>))"
  shows "\<exists>k out. parseRule (nested c (exec E k)) r p = Some out \<and> post E (c \<noteq> \<infinity>) p (nul N (expr r)) out"
proof -
  let ?p0 = "pushV (p\<lparr>rstack := r # rstack p\<rparr>)"
  from sub obtain k out1 where ex: "nested c (exec E k) (Expr (expr r)) ?p0 = Some out1"
    and po: "post E (c \<noteq> \<infinity>) ?p0 (nul N (expr r)) out1" by (auto simp: evals_def)
  from w have nm: "\<not> memoize p" by (rule wf_not_memoize)
  have "\<exists>out. parseRule (nested c (exec E k)) r p = Some out \<and> post E (c \<noteq> \<infinity>) p (nul N (expr r)) out"
    using po nm
    by (cases out1) (auto simp: parseRule_def Let_def and_then_def ex wf_not_memoize)
  then show ?thesis by blast
qed

lemma ruleRef_halts:
  assumes w: "wf_state E p"
    and sub: "\<And>r. rules E nm = Some r \<Longrightarrow>
                evals E N c (Expr (expr r)) (pushV (p\<lparr>rstack := r # rstack p\<rparr>)) \<and> (nul N (expr r) \<longrightarrow> nm \<in> set N)"
  shows "evals_body E N c (ruleRefExpr i nm) p"
proof (cases "nm = [] \<or> rules E nm = None")
  case True
  with w have "\<exists>out. parseExpr_switch E (nested c (exec E 0)) (ruleRefExpr i nm) p = Some out \<and>
      post E (c \<noteq> \<infinity>) p (nul N (ruleRefExpr i nm)) out"
    by (auto simp: parseRuleRefExpr_def wf_state_addErr)
  then show ?thesis unfolding evals_body_def by blast
next
  case False
  then obtain r where r: "rules E nm = Some r" and ne: "nm \<noteq> []" by auto
  from parseRule_halts [OF w, of N c r] sub [OF r]
  obtain k out where "parseRule (nested c (exec E k)) r p = Some out" "post E (c \<noteq> \<infinity>) p (nul N (expr r)) out" by blast
  with sub [OF r] r ne have "parseExpr_switch E (nested c (exec E k)) (ruleRefExpr i nm) p = Some out"
    "post E (c \<noteq> \<infinity>) p (nul N (ruleRefExpr i nm)) out"
    by (auto simp: parseRuleRefExpr_def intro: post_weaken)
  then show ?thesis unfolding evals_body_def by blast
qed

lemma choice_loop_halts:
  assumes alts: "\<And>alt p'. alt \<in> set alts \<Longrightarrow> wf_state E p' \<Longrightarrow> offset (pt p) \<le> offset (pt p') \<Longrightarrow>
                  evals E N c (Expr alt) (pushV p')"
    and w: "wf_state E p"
  shows "\<exists>k out. choice_loop (nested c (exec E k)) alts p = Some out \<and> post E (c \<noteq> \<infinity>) p (list_ex (nul N) alts) out"
  using alts w
proof (induction alts arbitrary: p)
  case Nil
  then show ?case by simp
next
  case (Cons alt alts)
  from Cons.prems(1) [of alt p] Cons.prems(2)
  obtain k1 out1 where ex: "nested c (exec E k1) (Expr alt) (pushV p) = Some out1"
    and po: "post E (c \<noteq> \<infinity>) (pushV p) (nul N alt) out1" by (auto simp: evals_def)
  show ?case
  proof (cases out1)
    case (Panicked x p1)
    with ex po have "choice_loop (nested c (exec E k1)) (alt # alts) p = Some (Panicked x p1)" "wf_state E p1"
      "x = stack_overflow \<longrightarrow> c \<noteq> \<infinity>"
      by (simp_all add: and_then_def)
    then show ?thesis by (intro exI [of _ k1] exI [of _ "Panicked x p1"]) simp
  next
    case (Done v b p1)
    show ?thesis
    proof (cases b)
      case True
      with Done ex po have "choice_loop (nested c (exec E k1)) (alt # alts) p = Some (Done v True (popV p1))"
        "post E (c \<noteq> \<infinity>) p (list_ex (nul N) (alt # alts)) (Done v True (popV p1))"
        by (auto simp: and_then_def)
      then show ?thesis by blast
    next
      case False
      from Done po have w1: "wf_state E (popV p1)" and le1: "offset (pt p) \<le> offset (pt (popV p1))"
        by simp_all
      have sub: "evals E N c (Expr a) (pushV p')"
        if "a \<in> set alts" "wf_state E p'" "offset (pt (popV p1)) \<le> offset (pt p')" for a p'
        using Cons.prems(1) [of a p'] that le1 by simp
      from Cons.IH [of "popV p1", OF sub w1]
      obtain k2 out2 where ex2: "choice_loop (nested c (exec E k2)) alts (popV p1) = Some out2"
        and po2: "post E (c \<noteq> \<infinity>) (popV p1) (list_ex (nul N) alts) out2" by blast
      let ?k = "max k1 k2"
      have a: "nested c (exec E ?k) (Expr alt) (pushV p) = Some (Done v False p1)"
        using exec_le [OF ex, of ?k] Done False by simp
      have b: "choice_loop (nested c (exec E ?k)) alts (popV p1) = Some out2"
        by (rule choice_loop_mono [OF nested_exec_mono ex2]) simp
      from a b have c: "choice_loop (nested c (exec E ?k)) (alt # alts) p = Some out2"
        by (simp add: and_then_def)
      have "post E (c \<noteq> \<infinity>) p (list_ex (nul N) (alt # alts)) out2"
        using po2 le1 by (cases out2) auto
      with c show ?thesis by blast
    qed
  qed
qed

lemma seq_loop_halts:
  assumes sub: "\<And>e p' kk. e \<in> set es \<Longrightarrow> wf_state E p' \<Longrightarrow> wf_expr N rk K kk e \<Longrightarrow>
                  (offset pt0 < offset (pt p') \<or> (offset (pt p') = offset pt0 \<and> kk = k)) \<Longrightarrow>
                  evals E N c (Expr e) p'"
    and w: "wf_state E p" and p0: "pt_ok (data E) pt0"
    and le: "offset pt0 \<le> offset (pt p)"
    and oks: "wf_seq N rk K kk es" and kk: "offset (pt p) = offset pt0 \<longrightarrow> kk = k"
  shows "\<exists>j out. seq_loop (nested c (exec E j)) pt0 es vals p = Some out \<and> seq_post E (c \<noteq> \<infinity>) N (offset pt0) p es out"
  using sub w le oks kk
proof (induction es arbitrary: p vals kk)
  case Nil
  then show ?case by (simp add: seq_post_def)
next
  case (Cons e es)
  note w = Cons.prems(2) and le = Cons.prems(3) and kk = Cons.prems(5)
  from Cons.prems(4) have oke: "wf_expr N rk K kk e"
    and okr: "wf_seq N rk K (if nul N e then kk else K) es" by simp_all
  have "offset pt0 < offset (pt p) \<or> (offset (pt p) = offset pt0 \<and> kk = k)"
    using le kk by linarith
  from Cons.prems(1) [OF _ w oke this]
  obtain k1 out1 where ex: "nested c (exec E k1) (Expr e) p = Some out1"
    and po: "post E (c \<noteq> \<infinity>) p (nul N e) out1" by (auto simp: evals_def)
  show ?case
  proof (cases out1)
    case (Panicked x p1)
    with ex po have "seq_loop (nested c (exec E k1)) pt0 (e # es) vals p = Some (Panicked x p1)" "wf_state E p1"
      "x = stack_overflow \<longrightarrow> c \<noteq> \<infinity>"
      by (simp_all add: and_then_def)
    then show ?thesis by (intro exI [of _ k1] exI [of _ "Panicked x p1"]) (simp add: seq_post_def)
  next
    case (Done v b p1)
    show ?thesis
    proof (cases b)
      case False
      with Done ex po p0
      have "seq_loop (nested c (exec E k1)) pt0 (e # es) vals p = Some (Done VNil False (restore p1 pt0))"
        "seq_post E (c \<noteq> \<infinity>) N (offset pt0) p (e # es) (Done VNil False (restore p1 pt0))"
        by (auto simp: and_then_def seq_post_def wf_state_restore)
      then show ?thesis by blast
    next
      case True
      from Done po have w1: "wf_state E p1" and le1: "offset (pt p) \<le> offset (pt p1)"
        and nl: "offset (pt p1) = offset (pt p) \<longrightarrow> nul N e" using True by simp_all
      from le le1 have le2: "offset pt0 \<le> offset (pt p1)" by linarith
      have kk1: "offset (pt p1) = offset pt0 \<longrightarrow> (if nul N e then kk else K) = k"
        using le le1 nl kk by auto
      have sub1: "evals E N c (Expr a) p'"
        if "a \<in> set es" "wf_state E p'" "wf_expr N rk K j a"
          "offset pt0 < offset (pt p') \<or> (offset (pt p') = offset pt0 \<and> j = k)" for a p' j
        using Cons.prems(1) [of a p' j] that by simp
      have "\<exists>j out. seq_loop (nested c (exec E j)) pt0 es (vals @ [v]) p1 = Some out \<and>
                seq_post E (c \<noteq> \<infinity>) N (offset pt0) p1 es out"
      proof (rule Cons.IH [where kk = "if nul N e then kk else K"])
        show "evals E N c (Expr a) p'"
          if "a \<in> set es" "wf_state E p'" "wf_expr N rk K j a"
            "offset pt0 < offset (pt p') \<or> (offset (pt p') = offset pt0 \<and> j = k)" for a p' j
          using sub1 that by blast
      qed (use w1 le2 okr kk1 in blast)+
      then obtain k2 out2 where ex2: "seq_loop (nested c (exec E k2)) pt0 es (vals @ [v]) p1 = Some out2"
        and po2: "seq_post E (c \<noteq> \<infinity>) N (offset pt0) p1 es out2" by blast
      let ?k = "max k1 k2"
      have a: "nested c (exec E ?k) (Expr e) p = Some (Done v True p1)"
        using exec_le [OF ex, of ?k] Done True by simp
      have b: "seq_loop (nested c (exec E ?k)) pt0 es (vals @ [v]) p1 = Some out2"
        by (rule seq_loop_mono [OF nested_exec_mono ex2]) simp
      from a b have c: "seq_loop (nested c (exec E ?k)) pt0 (e # es) vals p = Some out2"
        by (simp add: and_then_def)
      have "seq_post E (c \<noteq> \<infinity>) N (offset pt0) p (e # es) out2"
        using po2 le le1 nl by (cases out2) (auto simp: seq_post_def)
      with c show ?thesis by blast
    qed
  qed
qed

lemma zeroOrMore_round_halts:
  assumes w: "wf_state E p" and nn: "\<not> nul N e"
    and body: "evals E N c (Expr e) (pushV p)"
    and nxt: "\<And>vals' p2. wf_state E p2 \<Longrightarrow> offset (pt p) < offset (pt p2) \<Longrightarrow>
                evals E N c (ZeroOrMoreLoop e vals') p2"
  shows "\<exists>k out. zeroOrMore_round (nested c (exec E k)) e vals p = Some out \<and> post E (c \<noteq> \<infinity>) p True out"
proof -
  from body obtain k1 out1 where ex: "nested c (exec E k1) (Expr e) (pushV p) = Some out1"
    and po: "post E (c \<noteq> \<infinity>) (pushV p) (nul N e) out1" by (auto simp: evals_def)
  show ?thesis
  proof (cases out1)
    case (Panicked x p1)
    with ex po have "zeroOrMore_round (nested c (exec E k1)) e vals p = Some (Panicked x p1)" "wf_state E p1"
      "x = stack_overflow \<longrightarrow> c \<noteq> \<infinity>"
      by (simp_all add: zeroOrMore_round_def and_then_def)
    then show ?thesis by (intro exI [of _ k1] exI [of _ "Panicked x p1"]) simp
  next
    case (Done v b p1)
    show ?thesis
    proof (cases b)
      case False
      with Done ex po
      have "zeroOrMore_round (nested c (exec E k1)) e vals p = Some (Done (VList vals) True (popV p1))"
        "post E (c \<noteq> \<infinity>) p True (Done (VList vals) True (popV p1))"
        by (auto simp: zeroOrMore_round_def and_then_def Let_def)
      then show ?thesis by blast
    next
      case True
      from Done po True nn have w1: "wf_state E (popV p1)" and lt: "offset (pt p) < offset (pt (popV p1))"
        by auto
      from nxt [OF w1 lt, of "vals @ [v]"]
      obtain k2 out2 where ex2: "nested c (exec E k2) (ZeroOrMoreLoop e (vals @ [v])) (popV p1) = Some out2"
        and po2: "post E (c \<noteq> \<infinity>) (popV p1) True out2" by (auto simp: evals_def)
      let ?k = "max k1 k2"
      have a: "nested c (exec E ?k) (Expr e) (pushV p) = Some (Done v True p1)"
        using exec_le [OF ex, of ?k] Done True by simp
      have b: "nested c (exec E ?k) (ZeroOrMoreLoop e (vals @ [v])) (popV p1) = Some out2"
        using exec_le [OF ex2, of ?k] by simp
      from a b have c: "zeroOrMore_round (nested c (exec E ?k)) e vals p = Some out2"
        by (simp add: zeroOrMore_round_def and_then_def Let_def)
      have "post E (c \<noteq> \<infinity>) p True out2" using po2 lt by (cases out2) auto
      with c show ?thesis by blast
    qed
  qed
qed

lemma oneOrMore_round_halts:
  assumes w: "wf_state E p" and nn: "\<not> nul N e"
    and body: "evals E N c (Expr e) (pushV p)"
    and nxt: "\<And>vals' p2. wf_state E p2 \<Longrightarrow> offset (pt p) < offset (pt p2) \<Longrightarrow>
                evals E N c (OneOrMoreLoop e vals') p2"
  shows "\<exists>k out. oneOrMore_round (nested c (exec E k)) e vals p = Some out \<and> post E (c \<noteq> \<infinity>) p (vals \<noteq> []) out"
proof -
  from body obtain k1 out1 where ex: "nested c (exec E k1) (Expr e) (pushV p) = Some out1"
    and po: "post E (c \<noteq> \<infinity>) (pushV p) (nul N e) out1" by (auto simp: evals_def)
  show ?thesis
  proof (cases out1)
    case (Panicked x p1)
    with ex po have "oneOrMore_round (nested c (exec E k1)) e vals p = Some (Panicked x p1)" "wf_state E p1"
      "x = stack_overflow \<longrightarrow> c \<noteq> \<infinity>"
      by (simp_all add: oneOrMore_round_def and_then_def)
    then show ?thesis by (intro exI [of _ k1] exI [of _ "Panicked x p1"]) simp
  next
    case (Done v b p1)
    show ?thesis
    proof (cases b)
      case False
      with Done ex po
      have "\<exists>out. oneOrMore_round (nested c (exec E k1)) e vals p = Some out \<and> post E (c \<noteq> \<infinity>) p (vals \<noteq> []) out"
        by (auto simp: oneOrMore_round_def and_then_def Let_def)
      then show ?thesis by blast
    next
      case True
      from Done po True nn have w1: "wf_state E (popV p1)" and lt: "offset (pt p) < offset (pt (popV p1))"
        by auto
      from nxt [OF w1 lt, of "vals @ [v]"]
      obtain k2 out2 where ex2: "nested c (exec E k2) (OneOrMoreLoop e (vals @ [v])) (popV p1) = Some out2"
        and po2: "post E (c \<noteq> \<infinity>) (popV p1) (nul_task N (OneOrMoreLoop e (vals @ [v]))) out2"
        by (auto simp: evals_def)
      let ?k = "max k1 k2"
      have a: "nested c (exec E ?k) (Expr e) (pushV p) = Some (Done v True p1)"
        using exec_le [OF ex, of ?k] Done True by simp
      have b: "nested c (exec E ?k) (OneOrMoreLoop e (vals @ [v])) (popV p1) = Some out2"
        using exec_le [OF ex2, of ?k] by simp
      from a b have c: "oneOrMore_round (nested c (exec E ?k)) e vals p = Some out2"
        by (simp add: oneOrMore_round_def and_then_def Let_def)
      have "post E (c \<noteq> \<infinity>) p (vals \<noteq> []) out2" using po2 lt by (cases out2) auto
      with c show ?thesis by blast
    qed
  qed
qed

lemma size_in_list: "e \<in> set es \<Longrightarrow> size e \<le> size_list size es"
  by (induction es) auto

lemma wf_alts_D: "wf_alts N rk K k es \<Longrightarrow> e \<in> set es \<Longrightarrow> wf_expr N rk K k e"
  by (induction es) auto

lemma exec_halts:
  assumes R: "rules_ok E N rk K"
  shows "wf_state E p \<Longrightarrow> wf_task N rk K k t \<Longrightarrow> evals E N d t p"
proof (induction "(length (data E) - offset (pt p), k, tsize t)" arbitrary: p k t d
    rule: wf_induct_rule [OF wf_lex_prod [OF wf_less_than wf_lex_prod [OF wf_less_than wf_less_than]]])
  case 1
  note w = "1.prems"(1) and okt = "1.prems"(2)
  have IH: "evals E N c t' p'"
    if "wf_state E p'" "wf_task N rk K k' t'"
      "offset (pt p) < offset (pt p') \<or> (offset (pt p') = offset (pt p) \<and>
         (k' < k \<or> (k' = k \<and> tsize t' < tsize t)))" for p' k' t' c
  proof (rule "1.hyps" [OF _ that(1,2)])
    from wf_state_offset [OF that(1)] that(3)
    show "((length (data E) - offset (pt p'), k', tsize t'), (length (data E) - offset (pt p), k, tsize t))
          \<in> less_than <*lex*> less_than <*lex*> less_than"
      by auto
  qed
  show ?case
  proof (cases t)
    case (ZeroOrMoreLoop e vals)
    with okt have nn: "\<not> nul N e" and oke: "wf_expr N rk K k e" by simp_all
    have "\<exists>j out. zeroOrMore_round (nested d (exec E j)) e vals p = Some out \<and>
            post E (d \<noteq> \<infinity>) p True out"
    proof (rule zeroOrMore_round_halts [OF w nn])
      show "evals E N d (Expr e) (pushV p)"
        using w oke ZeroOrMoreLoop by (intro IH [where k' = k]) simp_all
      show "evals E N d (ZeroOrMoreLoop e vals') p2"
        if "wf_state E p2" "offset (pt p) < offset (pt p2)" for vals' p2
        using that nn oke by (intro IH [where k' = k]) simp_all
    qed
    then obtain j out where "zeroOrMore_round (nested d (exec E j)) e vals p = Some out"
      "post E (d \<noteq> \<infinity>) p True out"
      by blast
    then have "nested d (exec E (Suc j)) t p = Some out" "post E (d \<noteq> \<infinity>) p (nul_task N t) out"
      using ZeroOrMoreLoop by (simp_all add: step_def nested_def)
    then show ?thesis unfolding evals_def by blast
  next
    case (OneOrMoreLoop e vals)
    with okt have nn: "\<not> nul N e" and oke: "wf_expr N rk K k e" by simp_all
    have "\<exists>j out. oneOrMore_round (nested d (exec E j)) e vals p = Some out \<and>
            post E (d \<noteq> \<infinity>) p (vals \<noteq> []) out"
    proof (rule oneOrMore_round_halts [OF w nn])
      show "evals E N d (Expr e) (pushV p)"
        using w oke OneOrMoreLoop by (intro IH [where k' = k]) simp_all
      show "evals E N d (OneOrMoreLoop e vals') p2"
        if "wf_state E p2" "offset (pt p) < offset (pt p2)" for vals' p2
        using that nn oke by (intro IH [where k' = k]) simp_all
    qed
    then obtain j out where a: "oneOrMore_round (nested d (exec E j)) e vals p = Some out"
      and b: "post E (d \<noteq> \<infinity>) p (vals \<noteq> []) out"
      by blast
    from a have "nested d (exec E (Suc j)) t p = Some out"
      using OneOrMoreLoop by (simp add: step_def nested_def)
    moreover from b have "post E (d \<noteq> \<infinity>) p (nul_task N t) out"
      using OneOrMoreLoop by (auto intro: post_weaken)
    ultimately show ?thesis unfolding evals_def by blast
  next
    case (Expr e0)
    show ?thesis
    proof (cases "d = 0")
      case True
      then show ?thesis using Expr evals_overflow [OF w] by simp
    next
      case False
      define c where "c = d - 1"
      have "evals_body E N c e0 p"
      proof (cases e0)
        case (actionExpr i run e)
        have "evals E N c (Expr e) p"
          using w okt Expr actionExpr by (intro IH [where k' = k]) simp_all
        from action_halts [OF w this] show ?thesis using actionExpr by simp
      next
        case (andExpr i e)
        have "evals E N c (Expr e) (pushV p)"
          using w okt Expr andExpr by (intro IH [where k' = k]) simp_all
        from and_halts [OF w this] show ?thesis using andExpr by simp
      next
        case (notExpr i e)
        have "evals E N c (Expr e) ((pushV p)\<lparr>maxFailInvertExpected := \<not> maxFailInvertExpected p\<rparr>)"
          using w okt Expr notExpr by (intro IH [where k' = k]) simp_all
        from not_halts [OF w this] show ?thesis using notExpr by simp
      next
        case (zeroOrOneExpr i e)
        have "evals E N c (Expr e) (pushV p)"
          using w okt Expr zeroOrOneExpr by (intro IH [where k' = k]) simp_all
        from zeroOrOne_halts [OF w this] show ?thesis using zeroOrOneExpr by simp
      next
        case (labeledExpr i l e)
        have "evals E N c (Expr e) (pushV p)"
          using w okt Expr labeledExpr by (intro IH [where k' = k]) simp_all
        from labeled_halts [OF w this] show ?thesis using labeledExpr by simp
      next
        case (zeroOrMoreExpr i e)
        with okt Expr have nn: "\<not> nul N e" and oke: "wf_expr N rk K k e" by simp_all
        have "\<exists>j out. zeroOrMore_round (nested c (exec E j)) e [] p = Some out \<and>
                post E (c \<noteq> \<infinity>) p True out"
        proof (rule zeroOrMore_round_halts [OF w nn])
          show "evals E N c (Expr e) (pushV p)"
            using w oke Expr zeroOrMoreExpr by (intro IH [where k' = k]) simp_all
          show "evals E N c (ZeroOrMoreLoop e vals') p2"
            if "wf_state E p2" "offset (pt p) < offset (pt p2)" for vals' p2
            using that nn oke by (intro IH [where k' = k]) simp_all
        qed
        then show ?thesis
          unfolding evals_body_def using zeroOrMoreExpr by (simp add: parseZeroOrMoreExpr_def)
      next
        case (oneOrMoreExpr i e)
        with okt Expr have nn: "\<not> nul N e" and oke: "wf_expr N rk K k e" by simp_all
        have "\<exists>j out. oneOrMore_round (nested c (exec E j)) e [] p = Some out \<and>
                post E (c \<noteq> \<infinity>) p ([] \<noteq> ([] :: 'a val list)) out"
        proof (rule oneOrMore_round_halts [OF w nn])
          show "evals E N c (Expr e) (pushV p)"
            using w oke Expr oneOrMoreExpr by (intro IH [where k' = k]) simp_all
          show "evals E N c (OneOrMoreLoop e vals') p2"
            if "wf_state E p2" "offset (pt p) < offset (pt p2)" for vals' p2
            using that nn oke by (intro IH [where k' = k]) simp_all
        qed
        then obtain j out where a: "oneOrMore_round (nested c (exec E j)) e [] p = Some out"
          and b: "post E (c \<noteq> \<infinity>) p ([] \<noteq> ([] :: 'a val list)) out"
          by blast
        from a have "parseExpr_switch E (nested c (exec E j)) e0 p = Some out"
          using oneOrMoreExpr by (simp add: parseOneOrMoreExpr_def)
        moreover from b have "post E (c \<noteq> \<infinity>) p (nul N e0) out" by (auto intro: post_weaken)
        ultimately show ?thesis unfolding evals_body_def by blast
      next
        case (choiceExpr i alts)
        with okt Expr have oka: "wf_alts N rk K k alts" by simp
        have "\<exists>j out. choice_loop (nested c (exec E j)) alts p = Some out \<and>
                post E (c \<noteq> \<infinity>) p (list_ex (nul N) alts) out"
        proof (rule choice_loop_halts [OF _ w])
          show "evals E N c (Expr alt) (pushV p')"
            if "alt \<in> set alts" "wf_state E p'" "offset (pt p) \<le> offset (pt p')" for alt p'
            using that wf_alts_D [OF oka that(1)] size_in_list [OF that(1)] Expr choiceExpr
            by (intro IH [where k' = k]) auto
        qed
        then show ?thesis
          unfolding evals_body_def using choiceExpr by (simp add: parseChoiceExpr_def)
      next
        case (seqExpr i es)
        with okt Expr have oks: "wf_seq N rk K k es" by simp
        have "\<exists>j out. seq_loop (nested c (exec E j)) (pt p) es [] p = Some out \<and>
                seq_post E (c \<noteq> \<infinity>) N (offset (pt p)) p es out"
        proof (rule seq_loop_halts [where k = k and kk = k and rk = rk and K = K])
          show "evals E N c (Expr e) p'"
            if "e \<in> set es" "wf_state E p'" "wf_expr N rk K kk e"
              "offset (pt p) < offset (pt p') \<or> (offset (pt p') = offset (pt p) \<and> kk = k)" for e p' kk
            using that size_in_list [OF that(1)] Expr seqExpr
            by (intro IH [where k' = kk]) auto
        qed (use w oks wf_state_pt_ok [OF w] in simp_all)
        then obtain j out where a: "seq_loop (nested c (exec E j)) (pt p) es [] p = Some out"
          and b: "seq_post E (c \<noteq> \<infinity>) N (offset (pt p)) p es out" by blast
        from a have "parseExpr_switch E (nested c (exec E j)) e0 p = Some out"
          using seqExpr by (simp add: parseSeqExpr_def)
        moreover from b have "post E (c \<noteq> \<infinity>) p (nul N e0) out"
          using seqExpr by (cases out) (auto simp: seq_post_def)
        ultimately show ?thesis unfolding evals_body_def by blast
      next
        case (ruleRefExpr i nm)
        with okt Expr have lt: "rk nm < k" by simp
        have "evals_body E N c (ruleRefExpr i nm) p"
        proof (rule ruleRef_halts [OF w])
          fix r assume r: "rules E nm = Some r"
          with R have okr: "wf_expr N rk K (rk nm) (expr r)" and nl: "nul N (expr r) \<longrightarrow> nm \<in> set N"
            by (auto simp: rules_ok_def)
          have "evals E N c (Expr (expr r)) (pushV (p\<lparr>rstack := r # rstack p\<rparr>))"
            using w okr lt by (intro IH [where k' = "rk nm"]) simp_all
          with nl show "evals E N c (Expr (expr r)) (pushV (p\<lparr>rstack := r # rstack p\<rparr>)) \<and>
                        (nul N (expr r) \<longrightarrow> nm \<in> set N)" by simp
        qed
        then show ?thesis using ruleRefExpr by simp
      next
        case (litMatcher i s ic)
        have "parseExpr_switch E (nested c (exec E 0)) e0 p = Some (parseLitMatcher E s ic p)"
          using litMatcher by simp
        moreover have "post E (c \<noteq> \<infinity>) p (nul N e0) (parseLitMatcher E s ic p)"
          using post_parseLitMatcher [OF w, of "c \<noteq> \<infinity>" N i s ic] litMatcher by simp
        ultimately show ?thesis unfolding evals_body_def by blast
      next
        case (charClassMatcher i val chars ranges ic inverted)
        have "parseExpr_switch E (nested c (exec E 0)) e0 p =
              Some (parseCharClassMatcher E val chars ranges ic inverted p)"
          using charClassMatcher by simp
        moreover have "post E (c \<noteq> \<infinity>) p (nul N e0) (parseCharClassMatcher E val chars ranges ic inverted p)"
          using post_parseCharClassMatcher [OF w] charClassMatcher by (auto intro: post_weaken)
        ultimately show ?thesis unfolding evals_body_def by blast
      next
        case (anyMatcher i)
        have "parseExpr_switch E (nested c (exec E 0)) e0 p = Some (parseAnyMatcher E p)"
          using anyMatcher by simp
        moreover have "post E (c \<noteq> \<infinity>) p (nul N e0) (parseAnyMatcher E p)"
          using post_parseAnyMatcher [OF w] anyMatcher by (auto intro: post_weaken)
        ultimately show ?thesis unfolding evals_body_def by blast
      qed
      then show ?thesis using Expr evals_ExprI [OF w False] by (simp add: c_def)
    qed
  qed
qed

lemma runes_Nil [simp]: "runes [] = []"
  by (simp add: runes_def)

lemma runes_fuel_Cons:
  "runes_fuel (Suc k) (c # s) =
     fst (DecodeRune (c # s)) # runes_fuel k (drop (snd (DecodeRune (c # s))) (c # s))"
  by simp

lemma runes_lit:
  "runes '','' = [44]"
  "runes ''var'' = [118, 97, 114]"
  "runes ''='' = [61]"
  "runes ''.'' = [46]"
  "runes ''('' = [40]"
  "runes '')'' = [41]"
  "runes '':'' = [58]"
  "runes ''{'' = [123]"
  "runes ''}'' = [125]"
  "runes ''or'' = [111, 114]"
  "runes ''and'' = [97, 110, 100]"
  "runes ''=='' = [61, 61]"
  "runes ''!='' = [33, 61]"
  "runes ''<='' = [60, 61]"
  "runes ''<'' = [60]"
  "runes ''>='' = [62, 61]"
  "runes ''>'' = [62]"
  "runes ''startswith'' = [115, 116, 97, 114, 116, 115, 119, 105, 116, 104]"
  "runes ''in'' = [105, 110]"
  "runes ''not empty'' = [110, 111, 116, 32, 101, 109, 112, 116, 121]"
  "runes ''empty'' = [101, 109, 112, 116, 121]"
  "runes ''+'' = [43]"
  "runes ''-'' = [45]"
  "runes ''*'' = [42]"
  "runes ''/'' = [47]"
  "runes ''Z'' = [90]"
  "runes ''T'' = [84]"
  "runes ''ns'' = [110, 115]"
  "runes ''us'' = [117, 115]"
  "runes [CHR 0xC2, CHR 0xB5, CHR ''s''] = [181, 115]"
  "runes [CHR 0xCE, CHR 0xBC, CHR ''s''] = [956, 115]"
  "runes ''ms'' = [109, 115]"
  "runes ''s'' = [115]"
  "runes ''m'' = [109]"
  "runes ''h'' = [104]"
  "runes [CHR 0x22] = [34]"
  "runes [CHR 0x5C] = [92]"
  "runes ''$'' = [36]"
  "runes ''0'' = [48]"
  "runes [CHR 0x5C, CHR ''/''] = [92, 47]"
  "runes [CHR 0x0A] = [10]"
  by (simp_all add: runes_def runes_fuel_Cons DecodeRune_def cont_byte_def)

lemmas g_defs =
  g_Start_def g_Program_def g_SourceElements_def g_SourceElement_def g_Statement_def
  g_VariableStatement_def g_VariableDeclarationList_def g_VarToken_def g_VariableDeclaration_def
  g_Initializer_def g_VariableExpression_def g_ExpressionStatement_def g_MemberExpression_def
  g_CallExpression_def g_Arguments_def g_FunctionArgs_def g_FunctionArgsRest_def
  g_FunctionArg_def g_FunctionArgValues_def g_WhereExpr_def g_Expr_def g_LogicalOperators_def
  g_Logical_def g_EqualityOperators_def g_Equality_def g_RelationalOperators_def g_Relational_def
  g_AdditiveOperator_def g_Additive_def g_MultiplicativeOperator_def g_Multiplicative_def
  g_Primary_def g_DateFullYear_def g_DateMonth_def g_DateMDay_def g_TimeHour_def g_TimeMinute_def
  g_TimeSecond_def g_TimeSecFrac_def g_TimeNumOffset_def g_TimeOffset_def g_PartialTime_def
  g_FullDate_def g_FullTime_def g_DateTime_def g_NanoSecondUnits_def g_MicroSecondUnits_def
  g_MilliSecondUnits_def g_SecondUnits_def g_MinuteUnits_def g_HourUnits_def g_DurationUnits_def
  g_SingleDuration_def g_Duration_def g_StringLiteral_def g_DoubleStringChar_def
  g_DoubleStringEscape_def g_String_def g_StringChar_def g_Number_def g_Integer_def
  g_NonZeroDigit_def g_Digit_def g_Field_def g_RegularExpressionLiteral_def
  g_RegularExpressionBody_def g_RegularExpressionChar_def
  g_RegularExpressionBackslashSequence_def g_RegularExpressionNonTerminator_def g_SourceChar_def
  g_underscores_def g_ws_def g_LineTerminator_def g_EOL_def g_EOF_def

lemma rank_simps:
  "rank ''Start'' = 10"
  "rank ''Program'' = 9"
  "rank ''SourceElements'' = 8"
  "rank ''SourceElement'' = 7"
  "rank ''Statement'' = 6"
  "rank ''VariableStatement'' = 1"
  "rank ''VariableDeclarationList'' = 4"
  "rank ''VarToken'' = 0"
  "rank ''VariableDeclaration'' = 3"
  "rank ''Initializer'' = 0"
  "rank ''VariableExpression'' = 5"
  "rank ''ExpressionStatement'' = 5"
  "rank ''MemberExpression'' = 3"
  "rank ''CallExpression'' = 4"
  "rank ''Arguments'' = 0"
  "rank ''FunctionArgs'' = 4"
  "rank ''FunctionArgsRest'' = 0"
  "rank ''FunctionArg'' = 3"
  "rank ''FunctionArgValues'' = 5"
  "rank ''WhereExpr'' = 0"
  "rank ''Expr'' = 11"
  "rank ''LogicalOperators'' = 0"
  "rank ''Logical'' = 10"
  "rank ''EqualityOperators'' = 0"
  "rank ''Equality'' = 9"
  "rank ''RelationalOperators'' = 0"
  "rank ''Relational'' = 8"
  "rank ''AdditiveOperator'' = 0"
  "rank ''Additive'' = 7"
  "rank ''MultiplicativeOperator'' = 0"
  "rank ''Multiplicative'' = 6"
  "rank ''Primary'' = 5"
  "rank ''DateFullYear'' = 1"
  "rank ''DateMonth'' = 1"
  "rank ''DateMDay'' = 1"
  "rank ''TimeHour'' = 1"
  "rank ''TimeMinute'' = 1"
  "rank ''TimeSecond'' = 1"
  "rank ''TimeSecFrac'' = 0"
  "rank ''TimeNumOffset'' = 0"
  "rank ''TimeOffset'' = 1"
  "rank ''PartialTime'' = 2"
  "rank ''FullDate'' = 2"
  "rank ''FullTime'' = 3"
  "rank ''DateTime'' = 3"
  "rank ''NanoSecondUnits'' = 0"
  "rank ''MicroSecondUnits'' = 0"
  "rank ''MilliSecondUnits'' = 0"
  "rank ''SecondUnits'' = 0"
  "rank ''MinuteUnits'' = 0"
  "rank ''HourUnits'' = 0"
  "rank ''DurationUnits'' = 1"
  "rank ''SingleDuration'' = 3"
  "rank ''Duration'' = 4"
  "rank ''StringLiteral'' = 0"
  "rank ''DoubleStringChar'' = 1"
  "rank ''DoubleStringEscape'' = 1"
  "rank ''String'' = 2"
  "rank ''StringChar'' = 1"
  "rank ''Number'' = 2"
  "rank ''Integer'' = 1"
  "rank ''NonZeroDigit'' = 0"
  "rank ''Digit'' = 0"
  "rank ''Field'' = 0"
  "rank ''RegularExpressionLiteral'' = 0"
  "rank ''RegularExpressionBody'' = 3"
  "rank ''RegularExpressionChar'' = 2"
  "rank ''RegularExpressionBackslashSequence'' = 0"
  "rank ''RegularExpressionNonTerminator'' = 1"
  "rank ''SourceChar'' = 0"
  "rank ''__'' = 1"
  "rank ''ws'' = 0"
  "rank ''LineTerminator'' = 0"
  "rank ''EOL'' = 0"
  "rank ''EOF'' = 0"
  by (simp_all add: rank_def rank_table_def)

lemma nullable_simps:
  "''Start'' \<in> set nullable_rules \<longleftrightarrow> False"
  "''Program'' \<in> set nullable_rules \<longleftrightarrow> False"
  "''SourceElements'' \<in> set nullable_rules \<longleftrightarrow> False"
  "''SourceElement'' \<in> set nullable_rules \<longleftrightarrow> False"
  "''Statement'' \<in> set nullable_rules \<longleftrightarrow> False"
  "''VariableStatement'' \<in> set nullable_rules \<longleftrightarrow> False"
  "''VariableDeclarationList'' \<in> set nullable_rules \<longleftrightarrow> False"
  "''VarToken'' \<in> set nullable_rules \<longleftrightarrow> False"
  "''VariableDeclaration'' \<in> set nullable_rules \<longleftrightarrow> False"
  "''Initializer'' \<in> set nullable_rules \<longleftrightarrow> False"
  "''VariableExpression'' \<in> set nullable_rules \<longleftrightarrow> False"
  "''ExpressionStatement'' \<in> set nullable_rules \<longleftrightarrow> False"
  "''MemberExpression'' \<in> set nullable_rules \<longleftrightarrow> False"
  "''CallExpression'' \<in> set nullable_rules \<longleftrightarrow> False"
  "''Arguments'' \<in> set nullable_rules \<longleftrightarrow> False"
  "''FunctionArgs'' \<in> set nullable_rules \<longleftrightarrow> False"
  "''FunctionArgsRest'' \<in> set nullable_rules \<longleftrightarrow> False"
  "''FunctionArg'' \<in> set nullable_rules \<longleftrightarrow> False"
  "''FunctionArgValues'' \<in> set nullable_rules \<longleftrightarrow> False"
  "''WhereExpr'' \<in> set nullable_rules \<longleftrightarrow> False"
  "''Expr'' \<in> set nullable_rules \<longleftrightarrow> False"
  "''LogicalOperators'' \<in> set nullable_rules \<longleftrightarrow> True"
  "''Logical'' \<in> set nullable_rules \<longleftrightarrow> False"
  "''EqualityOperators'' \<in> set nullable_rules \<longleftrightarrow> False"
  "''Equality'' \<in> set nullable_rules \<longleftrightarrow> False"
  "''RelationalOperators'' \<in> set nullable_rules \<longleftrightarrow> True"
  "''Relational'' \<in> set nullable_rules \<longleftrightarrow> False"
  "''AdditiveOperator'' \<in> set nullable_rules \<longleftrightarrow> False"
  "''Additive'' \<in> set nullable_rules \<longleftrightarrow> False"
  "''MultiplicativeOperator'' \<in> set nullable_rules \<longleftrightarrow> False"
  "''Multiplicative'' \<in> set nullable_rules \<longleftrightarrow> False"
  "''Primary'' \<in> set nullable_rules \<longleftrightarrow> False"
  "''DateFullYear'' \<in> set nullable_rules \<longleftrightarrow> False"
  "''DateMonth'' \<in> set nullable_rules \<longleftrightarrow> False"
  "''DateMDay'' \<in> set nullable_rules \<longleftrightarrow> False"
  "''TimeHour'' \<in> set nullable_rules \<longleftrightarrow> False"
  "''TimeMinute'' \<in> set nullable_rules \<longleftrightarrow> False"
  "''TimeSecond'' \<in> set nullable_rules \<longleftrightarrow> False"
  "''TimeSecFrac'' \<in> set nullable_rules \<longleftrightarrow> False"
  "''TimeNumOffset'' \<in> set nullable_rules \<longleftrightarrow> False"
  "''TimeOffset'' \<in> set nullable_rules \<longleftrightarrow> False"
  "''PartialTime'' \<in> set nullable_rules \<longleftrightarrow> False"
  "''FullDate'' \<in> set nullable_rules \<longleftrightarrow> False"
  "''FullTime'' \<in> set nullable_rules \<longleftrightarrow> False"
  "''DateTime'' \<in> set nullable_rules \<longleftrightarrow> False"
  "''NanoSecondUnits'' \<in> set nullable_rules \<longleftrightarrow> False"
  "''MicroSecondUnits'' \<in> set nullable_rules \<longleftrightarrow> False"
  "''MilliSecondUnits'' \<in> set nullable_rules \<longleftrightarrow> False"
  "''SecondUnits'' \<in> set nullable_rules \<longleftrightarrow> False"
  "''MinuteUnits'' \<in> set nullable_rules \<longleftrightarrow> False"
  "''HourUnits'' \<in> set nullable_rules \<longleftrightarrow> False"
  "''DurationUnits'' \<in> set nullable_rules \<longleftrightarrow> False"
  "''SingleDuration'' \<in> set nullable_rules \<longleftrightarrow> False"
  "''Duration'' \<in> set nullable_rules \<longleftrightarrow> False"
  "''StringLiteral'' \<in> set nullable_rules \<longleftrightarrow> False"
  "''DoubleStringChar'' \<in> set nullable_rules \<longleftrightarrow> False"
  "''DoubleStringEscape'' \<in> set nullable_rules \<longleftrightarrow> True"
  "''String'' \<in> set nullable_rules \<longleftrightarrow> False"
  "''StringChar'' \<in> set nullable_rules \<longleftrightarrow> False"
  "''Number'' \<in> set nullable_rules \<longleftrightarrow> False"
  "''Integer'' \<in> set nullable_rules \<longleftrightarrow> False"
  "''NonZeroDigit'' \<in> set nullable_rules \<longleftrightarrow> False"
  "''Digit'' \<in> set nullable_rules \<longleftrightarrow> False"
  "''Field'' \<in> set nullable_rules \<longleftrightarrow> False"
  "''RegularExpressionLiteral'' \<in> set nullable_rules \<longleftrightarrow> False"
  "''RegularExpressionBody'' \<in> set nullable_rules \<longleftrightarrow> False"
  "''RegularExpressionChar'' \<in> set nullable_rules \<longleftrightarrow> False"
  "''RegularExpressionBackslashSequence'' \<in> set nullable_rules \<longleftrightarrow> False"
  "''RegularExpressionNonTerminator'' \<in> set nullable_rules \<longleftrightarrow> False"
  "''SourceChar'' \<in> set nullable_rules \<longleftrightarrow> False"
  "''__'' \<in> set nullable_rules \<longleftrightarrow> True"
  "''ws'' \<in> set nullable_rules \<longleftrightarrow> False"
  "''LineTerminator'' \<in> set nullable_rules \<longleftrightarrow> False"
  "''EOL'' \<in> set nullable_rules \<longleftrightarrow> False"
  "''EOF'' \<in> set nullable_rules \<longleftrightarrow> True"
  by (simp_all add: nullable_rules_def)

lemma g_rule_ok: "list_all rule_ok g"
  by (simp add: g_def g_defs rule_ok_def rank_simps nullable_simps rank_bound_def runes_lit RuneError_def)

lemma dedupe_loop_all: "list_all P es \<Longrightarrow> list_all P (dedupe_loop seen es)"
  by (induction es arbitrary: seen) auto

lemma err_all: "list_all P es \<Longrightarrow> list_all P (err es)"
  by (simp add: err_def dedupe_loop_all)

lemma dedupe_loop_keeps:
  "e \<in> set es \<Longrightarrow>
     (Inner e, epos e, erule e) \<in> set (map (\<lambda>x. (Inner x, epos x, erule x)) seen) \<or>
     (\<exists>e' \<in> set (dedupe_loop seen es). Inner e' = Inner e)"
proof (induction es arbitrary: seen)
  case Nil
  then show ?case by simp
next
  case (Cons a es)
  show ?case
  proof (cases "e = a")
    case True
    then show ?thesis by auto
  next
    case False
    with Cons.prems have "e \<in> set es" by simp
    from Cons.IH [OF this, of seen] Cons.IH [OF this, of "a # seen"] show ?thesis by auto
  qed
qed

lemma err_keeps: "e \<in> set es \<Longrightarrow> \<exists>e' \<in> set (err es). Inner e' = Inner e"
  using dedupe_loop_keeps [of e es "[]"] by (simp add: err_def)

lemma err_nonempty: "es \<noteq> [] \<Longrightarrow> err es \<noteq> []"
  by (cases es) (simp_all add: err_def)

lemma wf_state_errs: "wf_state E p \<Longrightarrow> list_all (\<lambda>e. offset (epos e) \<le> length (data E)) (errs p)"
  by (simp add: wf_state_def)

lemma wf_state_maxFailPos: "wf_state E p \<Longrightarrow> offset (maxFailPos p) \<le> length (data E)"
  by (simp add: wf_state_def)

lemma wf_state_first_read:
  assumes "offset (pt p) + w (pt p) \<le> length (data E)" "\<not> memoize p"
    "offset (maxFailPos p) \<le> length (data E)"
    "list_all (\<lambda>e. offset (epos e) \<le> length (data E)) (errs p)"
  shows "wf_state E (read E p)"
proof -
  let ?off = "offset (pt p) + w (pt p)"
  let ?d = "DecodeRune (drop ?off (data E))"
  have le: "snd ?d \<le> length (data E) - ?off" using DecodeRune_le [of "drop ?off (data E)"] by simp
  have ps: "fst ?d \<noteq> RuneError \<Longrightarrow> 0 < snd ?d" by (rule DecodeRune_pos)
  from assms(1) le have c: "?off + snd ?d \<le> length (data E)" by linarith
  show ?thesis
    using assms c ps
    by (auto simp: read_def Let_def wf_state_def pt_ok_def addErr_def addErrAt_def)
qed

lemma rules_ok_buildRulesTable:
  assumes "\<And>r. r \<in> set gr \<Longrightarrow>
             wf_expr N rk K (rk (name r)) (expr r) \<and> (nul N (expr r) \<longrightarrow> name r \<in> set N)"
  shows "rules_ok (E\<lparr>rules := buildRulesTable gr\<rparr>) N rk K"
  unfolding rules_ok_def
proof (intro allI impI)
  fix nm r
  assume "rules (E\<lparr>rules := buildRulesTable gr\<rparr>) nm = Some r"
  then have "map_of (rev (map (\<lambda>r. (name r, r)) gr)) nm = Some r"
    by (simp add: buildRulesTable_def)
  then have "(nm, r) \<in> set (rev (map (\<lambda>r. (name r, r)) gr))" by (rule map_of_SomeD)
  then have "r \<in> set gr" "nm = name r" by auto
  with assms [of r]
  show "wf_expr N rk K (rk nm) (expr r) \<and> (nul N (expr r) \<longrightarrow> nm \<in> set N)" by simp
qed

text \<open>A run on a stack without bound is also the run on every stack with enough room.\<close>

lemma exec_enough_room: "enat k \<le> d \<Longrightarrow> le_call (exec E k \<infinity>) (exec E k d)"
proof (induction k arbitrary: d)
  case 0
  show ?case by (simp add: le_call_def)
next
  case (Suc k)
  have le: "le_call (nested \<infinity> (exec E k)) (nested d (exec E k))"
    unfolding le_call_def
  proof (intro allI impI)
    fix t p out
    assume a: "nested \<infinity> (exec E k) t p = Some out"
    from Suc.prems have d0: "d \<noteq> 0" by (auto simp: zero_enat_def)
    from Suc.prems have d1: "enat k \<le> d - 1" and d2: "enat k \<le> d"
      by (cases d; simp add: one_enat_def)+
    show "nested d (exec E k) t p = Some out"
      using a d0 le_callD [OF Suc.IH [OF d1]] le_callD [OF Suc.IH [OF d2]]
      by (cases t) (auto simp: nested_def)
  qed
  show ?case unfolding le_call_def
  proof (intro allI impI)
    fix t p out
    assume "exec E (Suc k) \<infinity> t p = Some out"
    then have "step E (nested \<infinity> (exec E k)) t p = Some out" by (simp only: exec.simps)
    from step_mono [OF le this] show "exec E (Suc k) d t p = Some out" by (simp only: exec.simps)
  qed
qed

lemma nested_enough_room: "enat k < d \<Longrightarrow> le_call (nested \<infinity> (exec E k)) (nested d (exec E k))"
  unfolding le_call_def
proof (intro allI impI)
  fix t p out
  assume lt: "enat k < d" and a: "nested \<infinity> (exec E k) t p = Some out"
  from lt have d0: "d \<noteq> 0" by (auto simp: zero_enat_def)
  from lt have d1: "enat k \<le> d - 1" and d2: "enat k \<le> d"
    by (cases d; simp add: one_enat_def)+
  show "nested d (exec E k) t p = Some out"
    using a d0 le_callD [OF exec_enough_room [OF d1]] le_callD [OF exec_enough_room [OF d2]]
    by (cases t) (auto simp: nested_def)
qed

lemma parse_halts:
  assumes ok: "\<And>r. r \<in> set gr \<Longrightarrow>
             wf_expr N rk K (rk (name r)) (expr r) \<and> (nul N (expr r) \<longrightarrow> name r \<in> set N)"
    and p: "offset (pt p) + w (pt p) \<le> length (data E)" "\<not> memoize p"
      "offset (maxFailPos p) \<le> length (data E)"
      "list_all (\<lambda>e. offset (epos e) \<le> length (data E)) (errs p)"
    and rc: "recover p" and ne: "gr \<noteq> []"
  shows "\<exists>fuel out r.
           (\<forall>m. parse_start d (fuel + m) E p gr = Some out \<and> parse d (fuel + m) E p gr = Some r) \<and>
           reported (data E) (d \<noteq> \<infinity>) out r"
proof -
  from ne obtain r0 rest where Cons: "gr = r0 # rest" by (cases gr) auto
  define E1 where "E1 = E\<lparr>rules := buildRulesTable gr\<rparr>"
  have dt: "data E1 = data E" by (simp add: E1_def)
  have R: "rules_ok E1 N rk K" unfolding E1_def by (rule rules_ok_buildRulesTable) (rule ok)
  have w: "wf_state E1 (read E1 p)" using p by (intro wf_state_first_read) (simp_all add: dt)
  have ok0: "wf_expr N rk K (rk (name r0)) (expr r0)" using ok [of r0] Cons by simp
  have "evals E1 N d (Expr (expr r0)) (pushV ((read E1 p)\<lparr>rstack := r0 # rstack (read E1 p)\<rparr>))"
    using w ok0 by (intro exec_halts [OF R, where k = "rk (name r0)"]) simp_all
  from parseRule_halts [OF w this]
  obtain k out where ex: "parseRule (nested d (exec E1 k)) r0 (read E1 p) = Some out"
    and po: "post E1 (d \<noteq> \<infinity>) (read E1 p) (nul N (expr r0)) out" by blast
  have exm: "parseRule (nested d (exec E1 (k + m))) r0 (read E1 p) = Some out" for m
    by (rule parseRule_mono [OF nested_exec_mono ex]) simp
  have st: "parse_start d (k + m) E p gr = Some out" for m
    using exm [of m] Cons by (simp add: parse_start_def E1_def Let_def)
  show ?thesis
  proof (cases out)
    case (Panicked x p1)
    with po have w1: "wf_state E1 p1" and ov: "x = stack_overflow \<longrightarrow> d \<noteq> \<infinity>" by simp_all
    show ?thesis
    proof (cases "x = stack_overflow")
      case True
      have "parse d (k + m) E p gr = Some (Crash stack_overflow)" for m
        using exm [of m] Panicked Cons True by (simp add: parse_def E1_def Let_def)
      moreover have "reported (data E) (d \<noteq> \<infinity>) out (Crash stack_overflow)"
        using Panicked True ov by (simp add: reported_def)
      ultimately show ?thesis using st by blast
    next
      case False
      let ?p2 = "addErr p1 (recovered_panic x)"
      let ?es = "err (errs ?p2)"
      have a: "parse d (k + m) E p gr = Some (Result VNil ?es)" for m
        using exm [of m] Panicked Cons rc False by (simp add: parse_def E1_def Let_def)
      have b: "list_all (\<lambda>e. offset (epos e) \<le> length (data E)) ?es"
        using wf_state_errs [OF wf_state_addErr [OF w1]] by (intro err_all) (simp add: dt)
      have "\<exists>e \<in> set (errs ?p2). Inner e = recovered_panic x"
        by (simp add: addErr_def addErrAt_def)
      then obtain e where "e \<in> set (errs ?p2)" "Inner e = recovered_panic x" by blast
      with err_keeps [of e "errs ?p2"] have c: "\<exists>e \<in> set ?es. Inner e = recovered_panic x" by auto
      have "reported (data E) (d \<noteq> \<infinity>) out (Result VNil ?es)"
        using Panicked False b c by (auto simp: reported_def)
      with a st show ?thesis by blast
    qed
  next
    case (Done v b p1)
    with po have w1: "wf_state E1 p1" by simp
    show ?thesis
    proof (cases b)
      case True
      have a: "parse d (k + m) E p gr = Some (Result v (err (errs p1)))" for m
        using exm [of m] Done True Cons by (simp add: parse_def E1_def Let_def)
      have "list_all (\<lambda>e. offset (epos e) \<le> length (data E)) (err (errs p1))"
        using wf_state_errs [OF w1] by (intro err_all) (simp add: dt)
      then have "reported (data E) (d \<noteq> \<infinity>) out (Result v (err (errs p1)))"
        using Done True by (simp add: reported_def)
      with a st show ?thesis by blast
    next
      case False
      let ?ex = "expected_tokens (maxFailExpected p1)"
      let ?p2 = "if errs p1 = [] then addErrAt p1 (no_match_found ?ex) (maxFailPos p1) ?ex else p1"
      have a: "parse d (k + m) E p gr = Some (Result VNil (err (errs ?p2)))" for m
        using exm [of m] Done False Cons by (simp add: parse_def E1_def Let_def)
      have "wf_state E1 ?p2"
        using w1 wf_state_maxFailPos [OF w1] by (simp add: wf_state_addErrAt)
      then have b: "list_all (\<lambda>e. offset (epos e) \<le> length (data E)) (err (errs ?p2))"
        using wf_state_errs [of E1 ?p2] by (intro err_all) (simp add: dt)
      have "errs ?p2 \<noteq> []" by (simp add: addErrAt_def)
      then have "err (errs ?p2) \<noteq> []" by (rule err_nonempty)
      with b have "reported (data E) (d \<noteq> \<infinity>) out (Result VNil (err (errs ?p2)))"
        using Done False by (simp add: reported_def)
      with a st show ?thesis by blast
    qed
  qed
qed

lemma parse_enough_room:
  assumes "parse \<infinity> k E p gr = Some r" "enat k < d"
  shows "parse d (k + m) E p gr = Some r"
proof (cases gr)
  case Nil
  with assms show ?thesis by (simp add: parse_def)
next
  case (Cons r0 rest)
  define E1 where "E1 = E\<lparr>rules := buildRulesTable gr\<rparr>"
  from assms(1) Cons obtain out where
    a: "parseRule (nested \<infinity> (exec E1 k)) r0 (read E1 p) = Some out"
    by (auto simp: parse_def E1_def Let_def split: option.splits)
  have a': "parseRule (nested d (exec E1 k)) r0 (read E1 p) = Some out"
    by (rule parseRule_mono [OF nested_enough_room [OF assms(2)] a])
  have b: "parseRule (nested d (exec E1 (k + m))) r0 (read E1 p) = Some out"
    by (rule parseRule_mono [OF nested_exec_mono a']) simp
  from assms(1) a b Cons show ?thesis by (simp add: parse_def E1_def Let_def)
qed

lemma g_ok:
  "r \<in> set g \<Longrightarrow> wf_expr nullable_rules rank rank_bound (rank (name r)) (expr r) \<and>
     (nul nullable_rules (expr r) \<longrightarrow> name r \<in> set nullable_rules)"
  using g_rule_ok by (simp add: list_all_iff rule_ok_def)

lemma g_not_Nil: "g \<noteq> []"
  by (simp add: g_def)

lemma and_then_simps:
  "and_then None k = None"
  "and_then (Some (Panicked x p)) k = Some (Panicked x p)"
  "and_then (Some (Done v b p)) k = k v b p"
  by (simp_all add: and_then_def)

lemma and_then_weak_cong: "r = r' \<Longrightarrow> and_then r k = and_then r' k"
  by simp

lemma exec_numeral: "exec E (numeral k) d t p = step E (nested d (exec E (pred_numeral k))) t p"
  by (simp add: numeral_eq_Suc)

lemma nested_simps:
  "nested \<infinity> run (Expr e) p = run \<infinity> (Expr e) p"
  "nested (enat j) run (Expr e) p =
     (if j = 0 then Some (Panicked stack_overflow p) else run (enat (j - 1)) (Expr e) p)"
  "nested d run (ZeroOrMoreLoop e vals) p = run d (ZeroOrMoreLoop e vals) p"
  "nested d run (OneOrMoreLoop e vals) p = run d (OneOrMoreLoop e vals) p"
  by (simp_all add: nested_def zero_enat_def one_enat_def)

lemma env_x_simps:
  "data env_x = ''x''" "toLower env_x c = c" "action env_x run frame pos txt = Returns VNil None"
  by (simp_all add: env_x_def act0_def)

lemma rules_env_x:
  "rules env_x ''Start'' = Some \<lparr>name = ''Start'', displayName = [], expr = g_Start\<rparr>"
  "rules env_x ''__'' = Some \<lparr>name = ''__'', displayName = [], expr = g_underscores\<rparr>"
  "rules env_x ''ws'' = Some \<lparr>name = ''ws'', displayName = [], expr = g_ws\<rparr>"
  "rules env_x ''EOL'' = Some \<lparr>name = ''EOL'', displayName = [], expr = g_EOL\<rparr>"
  "rules env_x ''Program'' = Some \<lparr>name = ''Program'', displayName = [], expr = g_Program\<rparr>"
  "rules env_x ''SourceElements'' = Some \<lparr>name = ''SourceElements'', displayName = [], expr = g_SourceElements\<rparr>"
  "rules env_x ''SourceElement'' = Some \<lparr>name = ''SourceElement'', displayName = [], expr = g_SourceElement\<rparr>"
  "rules env_x ''Statement'' = Some \<lparr>name = ''Statement'', displayName = [], expr = g_Statement\<rparr>"
  "rules env_x ''VariableStatement'' = Some \<lparr>name = ''VariableStatement'', displayName = [], expr = g_VariableStatement\<rparr>"
  "rules env_x ''VarToken'' = Some \<lparr>name = ''VarToken'', displayName = [], expr = g_VarToken\<rparr>"
  "rules env_x ''ExpressionStatement'' = Some \<lparr>name = ''ExpressionStatement'', displayName = [], expr = g_ExpressionStatement\<rparr>"
  "rules env_x ''CallExpression'' = Some \<lparr>name = ''CallExpression'', displayName = [], expr = g_CallExpression\<rparr>"
  "rules env_x ''MemberExpression'' = Some \<lparr>name = ''MemberExpression'', displayName = [], expr = g_MemberExpression\<rparr>"
  "rules env_x ''String'' = Some \<lparr>name = ''String'', displayName = [], expr = g_String\<rparr>"
  "rules env_x ''StringChar'' = Some \<lparr>name = ''StringChar'', displayName = [], expr = g_StringChar\<rparr>"
  "rules env_x ''SourceChar'' = Some \<lparr>name = ''SourceChar'', displayName = [], expr = g_SourceChar\<rparr>"
  "rules env_x ''Arguments'' = Some \<lparr>name = ''Arguments'', displayName = [], expr = g_Arguments\<rparr>"
  by (simp_all add: env_x_def buildRulesTable_def g_def)

lemmas eval_defs =
  step_def parseExpr_def parseActionExpr_def parseAndExpr_def parseNotExpr_def parseChoiceExpr_def
  parseLabeledExpr_def oneOrMore_round_def parseOneOrMoreExpr_def zeroOrMore_round_def
  parseZeroOrMoreExpr_def parseZeroOrOneExpr_def parseSeqExpr_def parseRule_def parseRuleRefExpr_def
  parseAnyMatcher_def parseCharClassMatcher_def parseLitMatcher_def failAt_def read_def restore_def
  sliceFrom_def getMemoized_def setMemoized_def pushV_def popV_def addErrAt_def addErr_def
  go_quote_def DecodeRune_def RuneError_def cont_byte_def position.truncate_def Let_def
  and_then_simps exec_numeral nested_simps env_x_simps rules_env_x runes_lit

lemma parse_Cons:
  "parse d fuel E p (r0 # rest) =
     (case parseRule (nested d (exec (E\<lparr>rules := buildRulesTable (r0 # rest)\<rparr>) fuel)) r0
             (read (E\<lparr>rules := buildRulesTable (r0 # rest)\<rparr>) p) of
        None \<Rightarrow> None
      | Some (Panicked x p1) \<Rightarrow>
          if x \<noteq> stack_overflow \<and> recover p
          then Some (Result VNil (err (errs (addErr p1 (recovered_panic x)))))
          else Some (Crash x)
      | Some (Done val ok p1) \<Rightarrow>
          if \<not> ok then
            (let ex = expected_tokens (maxFailExpected p1);
                 p2 = (if errs p1 = [] then addErrAt p1 (no_match_found ex) (maxFailPos p1) ex else p1)
             in Some (Result VNil (err (errs p2))))
          else Some (Result val (err (errs p1))))"
  by (simp add: parse_def Let_def)

lemma Parse_env_x:
  "Parse d fuel ''q.ifql'' ''x'' opts id act0 =
     (case parseRule (nested d (exec env_x fuel)) \<lparr>name = ''Start'', displayName = [], expr = g_Start\<rparr>
             (read env_x (newParser opts)) of
        None \<Rightarrow> None
      | Some (Panicked x p1) \<Rightarrow>
          if x \<noteq> stack_overflow \<and> recover (newParser opts :: (unit, unit) parser)
          then Some (Result VNil (err (errs (addErr p1 (recovered_panic x)))))
          else Some (Crash x)
      | Some (Done val ok p1) \<Rightarrow>
          if \<not> ok then
            (let ex = expected_tokens (maxFailExpected p1);
                 p2 = (if errs p1 = [] then addErrAt p1 (no_match_found ex) (maxFailPos p1) ex else p1)
             in Some (Result VNil (err (errs p2))))
          else Some (Result val (err (errs p1))))"
proof -
  let ?r0 = "\<lparr>name = ''Start'', displayName = [], expr = g_Start\<rparr>"
  let ?E = "\<lparr>filename = ''q.ifql'', data = ''x'', rules = Map.empty, toLower = id, action = act0\<rparr>"
  have g: "g = ?r0 # tl g" by (simp add: g_def)
  have e: "?E\<lparr>rules := buildRulesTable g\<rparr> = env_x" by (simp add: env_x_def)
  have "Parse d fuel ''q.ifql'' ''x'' opts id act0 = parse d fuel ?E (newParser opts) (?r0 # tl g)"
    unfolding Parse_def by (rule arg_cong [OF g])
  also note parse_Cons
  finally show ?thesis unfolding g [symmetric] e .
qed

lemma Parse_x_overflow:
  "Parse (enat 10) 60 ''q.ifql'' ''x'' [] id act0 = Some (Crash stack_overflow)"
  by (simp add: Parse_env_x eval_defs newParser_def g_defs err_def expected_tokens_def error_x_def
      cong: and_then_weak_cong)

lemma Parse_x_plain:
  "Parse \<infinity> 60 ''q.ifql'' ''x'' [] id act0 =
     Some (Result VNil [error_x [[CHR 0x22, CHR ''('', CHR 0x22], [CHR 0x22, CHR ''.'', CHR 0x22],
       [CHR 0x22, CHR 0x5C, CHR ''n'', CHR 0x22], ''.'',
       [CHR ''['', CHR '' '', CHR 0x5C, CHR ''t'', CHR 0x5C, CHR ''r'', CHR 0x5C, CHR ''n'', CHR '']'']]])"
  by (simp add: Parse_env_x eval_defs newParser_def g_defs err_def expected_tokens_def error_x_def
      cong: and_then_weak_cong)

lemma parse_more_fuel:
  assumes "parse d k E p gr = Some r"
  shows "parse d (k + m) E p gr = Some r"
proof (cases gr)
  case Nil
  with assms show ?thesis by (simp add: parse_def)
next
  case (Cons r0 rest)
  define E1 where "E1 = E\<lparr>rules := buildRulesTable gr\<rparr>"
  from assms Cons obtain out where
    a: "parseRule (nested d (exec E1 k)) r0 (read E1 p) = Some out"
    by (auto simp: parse_def E1_def Let_def split: option.splits)
  have b: "parseRule (nested d (exec E1 (k + m))) r0 (read E1 p) = Some out"
    by (rule parseRule_mono [OF nested_exec_mono a]) simp
  from assms a b Cons show ?thesis by (simp add: parse_def E1_def Let_def)
qed




end
